theory Spec2Isabelle
  imports Complex_Main "HOL-Library.Multiset"
begin

section \<open>Errors as values\<close>

text \<open>
  Every exception that can reach the caller of a PRDD method is a value of
  \<open>error\<close>; a computation that may raise returns \<open>error + 'a\<close> with \<open>Inl\<close> the
  exception. \<open>OutOfModel\<close> is no exception of the program: it marks the places where a
  computation leaves what the types below can hold, and nothing is said about what the
  program does from there.
\<close>

datatype error =
    KeyError            \<comment> \<open>a column label that a block does not have\<close>
  | TypeError           \<comment> \<open>a rejected keyword, an append that pandas rejects,
                           arithmetic on a cell that is not a number\<close>
  | AttributeError      \<comment> \<open>a method or attribute the object does not have\<close>
  | ValueError          \<comment> \<open>an argument the callee rejects\<close>
  | DuplicateLabels     \<comment> \<open>an alignment of columns when a label is repeated\<close>
  | MalformedBlock      \<comment> \<open>a row shorter than the column list\<close>
  | EmptyReduce         \<comment> \<open>a reduction over no element at all\<close>
  | SchedulerError      \<comment> \<open>a reduction order that names an element that does not exist\<close>
  | OutOfModel          \<comment> \<open>not an exception: the result is nothing these types hold\<close>

fun ebind :: "error + 'a \<Rightarrow> ('a \<Rightarrow> error + 'b) \<Rightarrow> error + 'b" where
  "ebind (Inl e) f = Inl e"
| "ebind (Inr x) f = f x"

text \<open>Running a function over a list stops at the first exception.\<close>

fun mapM :: "('a \<Rightarrow> error + 'b) \<Rightarrow> 'a list \<Rightarrow> error + 'b list" where
  "mapM f [] = Inr []"
| "mapM f (x # xs) = ebind (f x) (\<lambda>y. ebind (mapM f xs) (\<lambda>ys. Inr (y # ys)))"

fun foldM :: "('b \<Rightarrow> 'a \<Rightarrow> error + 'b) \<Rightarrow> 'b \<Rightarrow> 'a list \<Rightarrow> error + 'b" where
  "foldM f a [] = Inr a"
| "foldM f a (x # xs) = ebind (f a x) (\<lambda>a'. foldM f a' xs)"

section \<open>The tabular collaborator: blocks and columns\<close>

text \<open>
  The pandas objects that the methods of PRDD call into. A data frame is its list of
  column labels and its rows in order, each row an index label and one cell per column;
  a series is one column taken out of a frame: a name and the indexed cells. A cell is a
  value or missing (\<open>None\<close>, pandas' NaN). Column labels are strings and index labels
  are integers, as in the frames of the doctests. Only the operations that \<open>prdd.py\<close>
  calls are modelled: \<open>applymap\<close>, \<open>[key]\<close> and \<open>append\<close>.
\<close>

type_synonym label = string

record 'c frame =
  columns :: "label list"
  rows :: "(nat \<times> 'c option list) list"

record 'c series =
  sname :: "label option"
  items :: "(nat \<times> 'c option) list"

datatype 'c pobj = DataFrame "'c frame" | Series "'c series"

text \<open>\<open>applymap\<close> applies the function to every cell, the missing ones too.\<close>

definition frame_applymap :: "('c option \<Rightarrow> 'c option) \<Rightarrow> 'c frame \<Rightarrow> 'c frame" where
  "frame_applymap f df = df\<lparr>rows := map (\<lambda>(ix, r). (ix, map f r)) (rows df)\<rparr>"

text \<open>The first place of a label in a list of labels, and all its places.\<close>

fun position :: "label \<Rightarrow> label list \<Rightarrow> nat option" where
  "position k [] = None"
| "position k (c # cs) = (if c = k then Some 0 else map_option Suc (position k cs))"

fun positions :: "label \<Rightarrow> label list \<Rightarrow> nat list" where
  "positions k [] = []"
| "positions k (c # cs) =
     (if c = k then 0 # map Suc (positions k cs) else map Suc (positions k cs))"

fun pick_cells :: "nat \<Rightarrow> (nat \<times> 'c option list) list \<Rightarrow> error + (nat \<times> 'c option) list" where
  "pick_cells i [] = Inr []"
| "pick_cells i ((ix, r) # rs) =
     (if i < length r
      then ebind (pick_cells i rs) (\<lambda>its. Inr ((ix, r ! i) # its))
      else Inl MalformedBlock)"

fun pick_columns ::
  "nat list \<Rightarrow> (nat \<times> 'c option list) list \<Rightarrow> error + (nat \<times> 'c option list) list" where
  "pick_columns ps [] = Inr []"
| "pick_columns ps ((ix, r) # rs) =
     (if list_all (\<lambda>i. i < length r) ps
      then ebind (pick_columns ps rs) (\<lambda>rs'. Inr ((ix, map (\<lambda>i. r ! i) ps) # rs'))
      else Inl MalformedBlock)"

text \<open>
  \<open>df[key]\<close>: a label that the frame does not have raises; a label of one column gives
  that column as a series; a label that several columns have gives the frame of these
  columns.
\<close>

definition frame_getitem :: "'c frame \<Rightarrow> label \<Rightarrow> error + 'c pobj" where
  "frame_getitem df k =
     (case positions k (columns df) of
        [] \<Rightarrow> Inl KeyError
      | [i] \<Rightarrow> ebind (pick_cells i (rows df)) (\<lambda>its. Inr (Series \<lparr>sname = Some k, items = its\<rparr>))
      | i # j # ps \<Rightarrow>
          ebind (pick_columns (i # j # ps) (rows df))
            (\<lambda>rs. Inr (DataFrame \<lparr>columns = map (\<lambda>_. k) (i # j # ps), rows = rs\<rparr>)))"

text \<open>
  \<open>a.append(b)\<close> on two frames puts the rows of \<open>b\<close> under the rows of \<open>a\<close>. When the two
  have the same columns nothing else happens. Otherwise the columns are aligned by label:
  the result has the columns of \<open>a\<close> followed by those that only \<open>b\<close> has, and a row has a
  missing cell under every column that its frame did not have. Aligning needs labels that
  are not repeated.
\<close>

definition realign_row :: "label list \<Rightarrow> label list \<Rightarrow> 'c option list \<Rightarrow> error + 'c option list" where
  "realign_row cols cs r =
     mapM (\<lambda>c. case position c cols of
                 None \<Rightarrow> Inr None
               | Some i \<Rightarrow> if i < length r then Inr (r ! i) else Inl MalformedBlock) cs"

definition realign_rows ::
  "label list \<Rightarrow> label list \<Rightarrow> (nat \<times> 'c option list) list
     \<Rightarrow> error + (nat \<times> 'c option list) list" where
  "realign_rows cols cs rs =
     mapM (\<lambda>(ix, r). ebind (realign_row cols cs r) (\<lambda>r'. Inr (ix, r'))) rs"

definition frame_append :: "'c frame \<Rightarrow> 'c frame \<Rightarrow> error + 'c frame" where
  "frame_append a b =
     (if columns a = columns b
      then Inr \<lparr>columns = columns a, rows = rows a @ rows b\<rparr>
      else if distinct (columns a) \<and> distinct (columns b)
      then (let cs = columns a @ filter (\<lambda>c. c \<notin> set (columns a)) (columns b) in
            ebind (realign_rows (columns a) cs (rows a)) (\<lambda>ra.
            ebind (realign_rows (columns b) cs (rows b)) (\<lambda>rb.
            Inr \<lparr>columns = cs, rows = ra @ rb\<rparr>)))
      else Inl DuplicateLabels)"

definition series_append :: "'c series \<Rightarrow> 'c series \<Rightarrow> 'c series" where
  "series_append a b =
     \<lparr>sname = (if sname a = sname b then sname a else None), items = items a @ items b\<rparr>"

text \<open>
  Python dispatches on the object: \<open>data.applymap(f)\<close>, \<open>x[key]\<close> and
  \<open>frame_a.append(frame_b)\<close> run the method of whatever the element is. A series has no
  \<open>applymap\<close>; its index labels are integers, so a column label is never one of them.
  A frame does not take a series without a name; it takes a series with a name as one
  more row, whose index label is that name and whose columns are the index labels of the
  series: a frame with a string as an index label and integers as column labels, which
  is none of the frames above. A series does not take a frame.
\<close>

fun pd_applymap :: "('c option \<Rightarrow> 'c option) \<Rightarrow> 'c pobj \<Rightarrow> error + 'c pobj" where
  "pd_applymap f (DataFrame df) = Inr (DataFrame (frame_applymap f df))"
| "pd_applymap f (Series s) = Inl AttributeError"

fun pd_getitem :: "label \<Rightarrow> 'c pobj \<Rightarrow> error + 'c pobj" where
  "pd_getitem k (DataFrame df) = frame_getitem df k"
| "pd_getitem k (Series s) = Inl KeyError"

fun pd_append :: "'c pobj \<Rightarrow> 'c pobj \<Rightarrow> error + 'c pobj" where
  "pd_append (DataFrame a) (DataFrame b) = ebind (frame_append a b) (\<lambda>d. Inr (DataFrame d))"
| "pd_append (Series a) (Series b) = Inr (Series (series_append a b))"
| "pd_append (DataFrame a) (Series b) =
     (if sname b = None then Inl TypeError else Inl OutOfModel)"
| "pd_append (Series a) (DataFrame b) = Inl TypeError"

section \<open>The distributed collaborator: a lazy, partitioned collection\<close>

text \<open>
  An RDD is its list of partitions. A partition is a deferred computation of its
  elements: nothing is computed until an action runs, and a partition whose computation
  raises does so then. A transformation (\<open>map\<close>, \<open>mapPartitions\<close>) composes one more
  function onto each partition and returns a new collection.

  \<open>map\<close> takes the keywords it knows (the partitioning hint) and rejects any other at
  once, before any element is touched.
\<close>

type_synonym 'a rdd = "(error + 'a list) list"

type_synonym kwargs = "string list"

definition kwargs_ok :: "kwargs \<Rightarrow> bool" where
  "kwargs_ok kw = list_all (\<lambda>k. k = ''preservesPartitioning'') kw"

definition rdd_map :: "('a \<Rightarrow> error + 'b) \<Rightarrow> kwargs \<Rightarrow> 'a rdd \<Rightarrow> error + 'b rdd" where
  "rdd_map f kw r =
     (if kwargs_ok kw then Inr (map (\<lambda>part. ebind part (mapM f)) r) else Inl TypeError)"

definition rdd_mapPartitions :: "('a list \<Rightarrow> error + 'b list) \<Rightarrow> 'a rdd \<Rightarrow> 'b rdd" where
  "rdd_mapPartitions g r = map (\<lambda>part. ebind part g) r"

text \<open>
  \<open>reduce\<close> is an action: it computes every partition (the first partition that raises
  aborts the action), and combines all the elements pairwise. \<open>prdd.py\<close> passes the
  function and no order: the order is the runtime's. It is a binary tree whose leaves
  name the elements by their position in partition order; the runtime combines each
  element exactly once, so the leaves of its tree are a permutation of the positions.
  What is proved of \<open>reduce\<close> is proved for every such tree. The runtime as it is folds
  each partition from left to right and then the results of the partitions from left to
  right: a tree whose leaves are in partition order. Reducing no element at all raises.
\<close>

datatype plan = Leaf nat | Node plan plan

fun leaves :: "plan \<Rightarrow> nat list" where
  "leaves (Leaf i) = [i]"
| "leaves (Node l r) = leaves l @ leaves r"

definition valid_plan :: "nat \<Rightarrow> plan \<Rightarrow> bool" where
  "valid_plan n p = (mset (leaves p) = mset [0..<n])"

definition in_order :: "nat \<Rightarrow> plan \<Rightarrow> bool" where
  "in_order n p = (leaves p = [0..<n])"

fun run_plan :: "('a \<Rightarrow> 'a \<Rightarrow> error + 'a) \<Rightarrow> 'a list \<Rightarrow> plan \<Rightarrow> error + 'a" where
  "run_plan f vs (Leaf i) = (if i < length vs then Inr (vs ! i) else Inl SchedulerError)"
| "run_plan f vs (Node l r) =
     ebind (run_plan f vs l) (\<lambda>a. ebind (run_plan f vs r) (\<lambda>b. f a b))"

definition rdd_evaluate :: "'a rdd \<Rightarrow> error + 'a list" where
  "rdd_evaluate r = ebind (mapM (\<lambda>part. part) r) (\<lambda>parts. Inr (concat parts))"

definition rdd_reduce :: "plan \<Rightarrow> ('a \<Rightarrow> 'a \<Rightarrow> error + 'a) \<Rightarrow> 'a rdd \<Rightarrow> error + 'a" where
  "rdd_reduce p f r =
     ebind (rdd_evaluate r)
       (\<lambda>vs. if vs = [] then Inl EmptyReduce else run_plan f vs p)"

section \<open>The wrapper: class PRDD\<close>

record 'h prdd =
  rdd_of :: 'h

definition PRDD :: "'h \<Rightarrow> 'h prdd" where
  "PRDD rdd = \<lparr>rdd_of = rdd\<rparr>"

definition fromRDD :: "'h \<Rightarrow> 'h prdd" where
  "fromRDD rdd = PRDD rdd"

definition applymap ::
  "'c pobj rdd prdd \<Rightarrow> ('c option \<Rightarrow> 'c option) \<Rightarrow> kwargs \<Rightarrow> error + 'c pobj rdd prdd" where
  "applymap self f kw =
     ebind (rdd_map (\<lambda>data. pd_applymap f data) kw (rdd_of self)) (\<lambda>r. Inr (fromRDD r))"

definition getitem :: "'c pobj rdd prdd \<Rightarrow> label \<Rightarrow> error + 'c pobj rdd prdd" where
  "getitem self key =
     ebind (rdd_map (\<lambda>x. pd_getitem key x) [] (rdd_of self)) (\<lambda>r. Inr (fromRDD r))"

definition appendFrames :: "'c pobj \<Rightarrow> 'c pobj \<Rightarrow> error + 'c pobj" where
  "appendFrames frame_a frame_b = pd_append frame_a frame_b"

definition collect :: "plan \<Rightarrow> 'c pobj rdd prdd \<Rightarrow> error + 'c pobj" where
  "collect p self = rdd_reduce p appendFrames (rdd_of self)"

section \<open>Column statistics\<close>

text \<open>
  A cell of a block is a string or a number.
\<close>

datatype cell = Str string | Num real

text \<open>
  Modelled from the spec: the class \<open>ColumnStatCounters\<close> of
  \<open>pandaspark/col_stat_counters.py\<close>, which \<open>prdd.py\<close> imports, is not among the sources.
  The spec gives it as a running aggregate for each requested column (count, mean,
  standard deviation, max, min) with a merge that combines counts, sums, max and min, and
  gives two ways to fail: an empty list of columns, and a label that a block does not
  have. A counter keeps the count, the sum and the sum of squares of the numbers it has
  seen, and their max and min (none while it has seen nothing); mean and standard
  deviation are read off these. Numbers are the reals: rounding is not modelled.
\<close>

record counter =
  cnt :: nat
  total :: real
  sumsq :: real
  maxv :: "real option"
  minv :: "real option"

text \<open>Modelled from the spec: the counter that has seen nothing.\<close>

definition empty_counter :: counter where
  "empty_counter = \<lparr>cnt = 0, total = 0, sumsq = 0, maxv = None, minv = None\<rparr>"

text \<open>Modelled from the spec: max and min of what two counters have seen, if anything.\<close>

fun opt_combine :: "(real \<Rightarrow> real \<Rightarrow> real) \<Rightarrow> real option \<Rightarrow> real option \<Rightarrow> real option" where
  "opt_combine f None b = b"
| "opt_combine f (Some x) None = Some x"
| "opt_combine f (Some x) (Some y) = Some (f x y)"

text \<open>Modelled from the spec: one more number into a counter.\<close>

definition counter_add :: "counter \<Rightarrow> real \<Rightarrow> counter" where
  "counter_add c x =
     \<lparr>cnt = cnt c + 1, total = total c + x, sumsq = sumsq c + x * x,
      maxv = opt_combine max (maxv c) (Some x), minv = opt_combine min (minv c) (Some x)\<rparr>"

text \<open>Modelled from the spec: the merge of two counters of one column.\<close>

definition merge_counter :: "counter \<Rightarrow> counter \<Rightarrow> counter" where
  "merge_counter c d =
     \<lparr>cnt = cnt c + cnt d, total = total c + total d, sumsq = sumsq c + sumsq d,
      maxv = opt_combine max (maxv c) (maxv d), minv = opt_combine min (minv c) (minv d)\<rparr>"

text \<open>
  Modelled from the spec: what a counter reports. Mean and standard deviation (of the
  population) divide by the count and do not exist for a counter that has seen nothing.
\<close>

definition counter_mean :: "counter \<Rightarrow> real option" where
  "counter_mean c = (if cnt c = 0 then None else Some (total c / real (cnt c)))"

definition counter_stdev :: "counter \<Rightarrow> real option" where
  "counter_stdev c =
     (if cnt c = 0 then None
      else Some (sqrt (sumsq c / real (cnt c) - (total c / real (cnt c))\<^sup>2)))"

text \<open>
  Modelled from the spec: the numbers of column \<open>k\<close> of a block. The label must be a
  column of the block, and the column must hold numbers. The counters are over the
  reals, which have no missing value: a missing cell there is outside the model.
\<close>

fun num_of :: "cell option \<Rightarrow> error + real" where
  "num_of (Some (Num x)) = Inr x"
| "num_of (Some (Str s)) = Inl TypeError"
| "num_of None = Inl OutOfModel"

definition column_values :: "cell pobj \<Rightarrow> label \<Rightarrow> error + real list" where
  "column_values x k =
     ebind (pd_getitem k x)
       (\<lambda>y. case y of Series s \<Rightarrow> mapM (\<lambda>(ix, c). num_of c) (items s)
                    | DataFrame d \<Rightarrow> Inl TypeError)"

text \<open>
  Modelled from the spec: the accumulator holds one counter for each requested column,
  in the order of the request. Building it over the blocks of a partition adds each
  block in turn to every counter; merging two accumulators merges the counters of each
  column of the first with the counter the second has for that column.
\<close>

type_synonym accumulator = "(label \<times> counter) list"

definition add_frame :: "accumulator \<Rightarrow> cell pobj \<Rightarrow> error + accumulator" where
  "add_frame acc df =
     mapM (\<lambda>(k, c). ebind (column_values df k) (\<lambda>vs. Inr (k, foldl counter_add c vs))) acc"

text \<open>
  Modelled from the spec: the constructor \<open>ColumnStatCounters(dataframes, columns)\<close>. It
  rejects an empty list of columns and adds the blocks in order; the first block that has
  not a requested label, or holds something else than numbers under it, raises.
\<close>

definition ColumnStatCounters :: "cell pobj list \<Rightarrow> label list \<Rightarrow> error + accumulator" where
  "ColumnStatCounters dataframes cols =
     (if cols = [] then Inl ValueError
      else foldM add_frame (map (\<lambda>k. (k, empty_counter)) cols) dataframes)"

text \<open>Modelled from the spec: the method \<open>merge_stats\<close> of an accumulator.\<close>

definition merge_stats :: "accumulator \<Rightarrow> accumulator \<Rightarrow> accumulator" where
  "merge_stats a b =
     map (\<lambda>(k, c). (k, case map_of b k of None \<Rightarrow> c | Some d \<Rightarrow> merge_counter c d)) a"

text \<open>
  The method \<open>stats\<close> of PRDD. \<open>reduceFunc\<close> also prints its first argument; what is
  printed is no part of what \<open>stats\<close> returns.
\<close>

definition reduceFunc :: "accumulator \<Rightarrow> accumulator \<Rightarrow> error + accumulator" where
  "reduceFunc sc1 sc2 = Inr (merge_stats sc1 sc2)"

definition stats :: "plan \<Rightarrow> cell pobj rdd prdd \<Rightarrow> label list \<Rightarrow> error + accumulator" where
  "stats p self cols =
     rdd_reduce p reduceFunc
       (rdd_mapPartitions (\<lambda>i. ebind (ColumnStatCounters i cols) (\<lambda>a. Inr [a]))
          (rdd_of self))"

definition stats_default :: "plan \<Rightarrow> cell pobj rdd prdd \<Rightarrow> error + accumulator" where
  "stats_default p self = stats p self []"

section \<open>The objects of class PRDD\<close>

text \<open>
  The definitions above give what each method returns. To say what a method does to the
  objects that exist, the methods are given once more as programs on a store. An object
  of class PRDD has one attribute, \<open>_rdd\<close>; the store lists the objects by address, each
  as the value of its attribute, \<open>None\<close> as long as \<open>__init__\<close> has not set it. A program
  takes the store and returns the store it leaves and its result. The steps of a program
  are: read an attribute, assign an attribute, make a new object, and call a
  collaborator, which has no access to the store.
\<close>

type_synonym 'h heap = "'h option list"

type_synonym ('h, 'a) prog = "'h heap \<Rightarrow> 'h heap \<times> (error + 'a)"

definition sreturn :: "'a \<Rightarrow> ('h, 'a) prog" where
  "sreturn x = (\<lambda>H. (H, Inr x))"

definition sbind :: "('h, 'a) prog \<Rightarrow> ('a \<Rightarrow> ('h, 'b) prog) \<Rightarrow> ('h, 'b) prog" where
  "sbind m f = (\<lambda>H. case m H of (H', Inl e) \<Rightarrow> (H', Inl e) | (H', Inr x) \<Rightarrow> f x H')"

definition slift :: "error + 'a \<Rightarrow> ('h, 'a) prog" where
  "slift m = (\<lambda>H. (H, m))"

definition get_rdd :: "nat \<Rightarrow> ('h, 'h) prog" where
  "get_rdd self =
     (\<lambda>H. (H, if self < length H
               then (case H ! self of None \<Rightarrow> Inl AttributeError | Some r \<Rightarrow> Inr r)
               else Inl OutOfModel))"

definition set_rdd :: "nat \<Rightarrow> 'h \<Rightarrow> ('h, unit) prog" where
  "set_rdd self rdd = (\<lambda>H. (H[self := Some rdd], Inr ()))"

definition new_object :: "('h, nat) prog" where
  "new_object = (\<lambda>H. (H @ [None], Inr (length H)))"

text \<open>\<open>__init__\<close> is \<open>self._rdd = rdd\<close>; \<open>PRDD(rdd)\<close> makes an object and runs \<open>__init__\<close> on it.\<close>

definition init_obj :: "nat \<Rightarrow> 'h \<Rightarrow> ('h, unit) prog" where
  "init_obj self rdd = set_rdd self rdd"

definition PRDD_obj :: "'h \<Rightarrow> ('h, nat) prog" where
  "PRDD_obj rdd = sbind new_object (\<lambda>self. sbind (init_obj self rdd) (\<lambda>_. sreturn self))"

definition fromRDD_obj :: "'h \<Rightarrow> ('h, nat) prog" where
  "fromRDD_obj rdd = PRDD_obj rdd"

definition applymap_obj ::
  "nat \<Rightarrow> ('c option \<Rightarrow> 'c option) \<Rightarrow> kwargs \<Rightarrow> ('c pobj rdd, nat) prog" where
  "applymap_obj self f kw =
     sbind (get_rdd self) (\<lambda>r.
     sbind (slift (rdd_map (\<lambda>data. pd_applymap f data) kw r)) (\<lambda>r'.
     fromRDD_obj r'))"

definition getitem_obj :: "nat \<Rightarrow> label \<Rightarrow> ('c pobj rdd, nat) prog" where
  "getitem_obj self key =
     sbind (get_rdd self) (\<lambda>r.
     sbind (slift (rdd_map (\<lambda>x. pd_getitem key x) [] r)) (\<lambda>r'.
     fromRDD_obj r'))"

definition collect_obj :: "plan \<Rightarrow> nat \<Rightarrow> ('c pobj rdd, 'c pobj) prog" where
  "collect_obj p self =
     sbind (get_rdd self) (\<lambda>r. slift (rdd_reduce p appendFrames r))"

definition stats_obj :: "plan \<Rightarrow> nat \<Rightarrow> label list \<Rightarrow> (cell pobj rdd, accumulator) prog" where
  "stats_obj p self cols =
     sbind (get_rdd self) (\<lambda>r.
     slift (rdd_reduce p reduceFunc
       (rdd_mapPartitions (\<lambda>i. ebind (ColumnStatCounters i cols) (\<lambda>a. Inr [a])) r)))"

section \<open>What the results are compared with\<close>

text \<open>
  The direct concatenation of a list of blocks appends them from left to right, in the
  order of the list; there is nothing to concatenate in an empty list.
\<close>

definition concat_blocks :: "'c pobj list \<Rightarrow> error + 'c pobj" where
  "concat_blocks bs = (case bs of [] \<Rightarrow> Inl ValueError | b # rest \<Rightarrow> foldM pd_append b rest)"

text \<open>Two blocks are equal up to row order: same labels, same rows, in any order.\<close>

fun same_rows :: "'c pobj \<Rightarrow> 'c pobj \<Rightarrow> bool" where
  "same_rows (DataFrame a) (DataFrame b) =
     (columns a = columns b \<and> mset (rows a) = mset (rows b))"
| "same_rows (Series a) (Series b) = (sname a = sname b \<and> mset (items a) = mset (items b))"
| "same_rows (DataFrame a) (Series b) = False"
| "same_rows (Series a) (DataFrame b) = False"

text \<open>
  The cells of a frame under a label (under the first column that has it), row by row;
  and the frames in which one column, and only one, has the label.
\<close>

definition cell_of :: "label list \<Rightarrow> 'c option list \<Rightarrow> label \<Rightarrow> 'c option" where
  "cell_of cols r k =
     (case position k cols of None \<Rightarrow> None | Some i \<Rightarrow> if i < length r then r ! i else None)"

definition column_items :: "label \<Rightarrow> 'c frame \<Rightarrow> (nat \<times> 'c option) list" where
  "column_items k d = map (\<lambda>(ix, r). (ix, cell_of (columns d) r k)) (rows d)"

definition one_column :: "label \<Rightarrow> 'c frame \<Rightarrow> bool" where
  "one_column k d = (length (positions k (columns d)) = 1)"

text \<open>A data frame is rectangular: every row has one cell for each column.\<close>

definition wf_frame :: "'c frame \<Rightarrow> bool" where
  "wf_frame df = list_all (\<lambda>(ix, r). length r = length (columns df)) (rows df)"

fun is_frame :: "'c pobj \<Rightarrow> bool" where
  "is_frame (DataFrame df) = True"
| "is_frame (Series s) = False"

text \<open>A collection of tabular blocks: whatever a partition yields is a data frame.\<close>

definition frames_only :: "'c pobj rdd \<Rightarrow> bool" where
  "frames_only r =
     list_all (\<lambda>part. case part of Inl e \<Rightarrow> True | Inr vs \<Rightarrow> list_all is_frame vs) r"

text \<open>
  What an accumulator over a list of blocks holds, column by column: the counter of the
  numbers of column \<open>k\<close> in one block, in a list of blocks, and the merge of a list of
  counters.
\<close>

definition tabulate :: "label list \<Rightarrow> (label \<Rightarrow> counter) \<Rightarrow> accumulator" where
  "tabulate cols g = map (\<lambda>k. (k, g k)) cols"

definition block_counter :: "cell pobj \<Rightarrow> label \<Rightarrow> counter" where
  "block_counter df k =
     (case column_values df k of
        Inl e \<Rightarrow> empty_counter
      | Inr vs \<Rightarrow> foldl counter_add empty_counter vs)"

fun part_counter :: "cell pobj list \<Rightarrow> label \<Rightarrow> counter" where
  "part_counter [] k = empty_counter"
| "part_counter (df # dfs) k = merge_counter (block_counter df k) (part_counter dfs k)"

definition csum :: "counter list \<Rightarrow> counter" where
  "csum cs = fold merge_counter cs empty_counter"

section \<open>Exceptions: basic facts\<close>

lemma ebind_Inr_iff:
  "ebind m f = Inr y \<longleftrightarrow> (\<exists>x. m = Inr x \<and> f x = Inr y)"
  by (cases m) auto

lemma ebind_return [simp]: "ebind m Inr = m"
  by (cases m) auto

lemma ebind_assoc: "ebind (ebind m f) g = ebind m (\<lambda>x. ebind (f x) g)"
  by (cases m) auto

section \<open>Plans and evaluation\<close>

lemma mapM_Inr_id: "mapM (\<lambda>x. Inr x) xs = Inr xs"
  by (induction xs) auto

lemma leaves_nonempty: "leaves p \<noteq> []"
  by (induction p) auto

lemma frame_eta: "columns d = cs \<Longrightarrow> d = \<lparr>columns = cs, rows = rows d\<rparr>"
  by (cases d) simp

lemma series_eta: "sname s = n \<Longrightarrow> s = \<lparr>sname = n, items = items s\<rparr>"
  by (cases s) simp

lemma run_plan_series:
  "\<forall>i\<in>set (leaves p). i < length ss \<and> sname (ss ! i) = n \<Longrightarrow>
   run_plan appendFrames (map Series ss) p =
     Inr (Series \<lparr>sname = n, items = concat (map (\<lambda>i. items (ss ! i)) (leaves p))\<rparr>)"
proof (induction p)
  case (Leaf i)
  then show ?case using series_eta[of "ss ! i" n] by simp
next
  case (Node l r)
  then show ?case by (simp add: appendFrames_def series_append_def)
qed

lemma sequence_Inr: "mapM (\<lambda>part. part) r = Inr parts \<longleftrightarrow> r = map Inr parts"
proof (induction r arbitrary: parts)
  case Nil
  then show ?case by auto
next
  case (Cons a r)
  then show ?case by (cases a) (auto simp: ebind_Inr_iff)
qed

lemma rdd_evaluate_Inr:
  "rdd_evaluate r = Inr vs \<longleftrightarrow> (\<exists>parts. r = map Inr parts \<and> vs = concat parts)"
  by (auto simp: rdd_evaluate_def ebind_Inr_iff sequence_Inr)

lemma mapM_total: "\<forall>v\<in>set vs. g v = Inr (h v) \<Longrightarrow> mapM g vs = Inr (map h vs)"
  by (induction vs) auto

lemma rdd_evaluate_map:
  assumes "rdd_evaluate r = Inr vs" and "\<forall>v\<in>set vs. g v = Inr (h v)"
  shows "rdd_evaluate (map (\<lambda>part. ebind part (mapM g)) r) = Inr (map h vs)"
proof -
  obtain parts where r: "r = map Inr parts" and vs: "vs = concat parts"
    using assms(1) by (auto simp: rdd_evaluate_Inr)
  have "map (\<lambda>part. ebind part (mapM g)) r = map Inr (map (map h) parts)"
    using assms(2) by (auto simp: r vs intro!: mapM_total)
  moreover have "map h vs = concat (map (map h) parts)"
    by (simp add: vs map_concat)
  ultimately show ?thesis
    unfolding rdd_evaluate_Inr by blast
qed

lemma valid_plan_set: "valid_plan n p \<Longrightarrow> set (leaves p) = {0..<n}"
proof -
  assume "valid_plan n p"
  then have "set (leaves p) = set [0..<n]"
    unfolding valid_plan_def by (rule mset_eq_setD)
  then show ?thesis by simp
qed

lemma valid_plan_mset:
  assumes "valid_plan (length xs) p"
  shows "mset (map (\<lambda>i. xs ! i) (leaves p)) = mset xs"
proof -
  have "mset (map (\<lambda>i. xs ! i) (leaves p)) = mset (map (\<lambda>i. xs ! i) [0..<length xs])"
    using assms unfolding valid_plan_def mset_map by (rule arg_cong)
  then show ?thesis by (simp only: map_nth)
qed

lemma mset_concat_cong:
  assumes "mset xss = mset yss"
  shows "mset (concat xss) = mset (concat yss)"
proof -
  have h: "\<And>zs::'a list list. mset (concat zs) = sum_mset (image_mset mset (mset zs))"
    by (metis mset_concat sum_mset_sum_list mset_map)
  show ?thesis by (simp only: h assms)
qed

lemma valid_plan_concat:
  assumes "valid_plan (length xs) p"
  shows "mset (concat (map (\<lambda>i. f (xs ! i)) (leaves p))) = mset (concat (map f xs))"
proof -
  have "mset (map f (map (\<lambda>i. xs ! i) (leaves p))) = mset (map f xs)"
    using valid_plan_mset[OF assms] unfolding mset_map by (rule arg_cong)
  then have "mset (concat (map f (map (\<lambda>i. xs ! i) (leaves p)))) = mset (concat (map f xs))"
    by (rule mset_concat_cong)
  then show ?thesis by (simp add: comp_def)
qed

lemma collect_series:
  assumes "rdd_evaluate r = Inr (map Series ss)" and "valid_plan (length ss) p"
    and "ss \<noteq> []" and "\<forall>s\<in>set ss. sname s = n"
  shows "rdd_reduce p appendFrames r =
     Inr (Series \<lparr>sname = n, items = concat (map (\<lambda>i. items (ss ! i)) (leaves p))\<rparr>)"
proof -
  have "\<forall>i\<in>set (leaves p). i < length ss \<and> sname (ss ! i) = n"
    using assms(4) valid_plan_set[OF assms(2)] by auto
  from run_plan_series[OF this] show ?thesis
    using assms(1,3) by (simp add: rdd_reduce_def)
qed

lemma concat_map_leaves:
  "\<forall>i\<in>set ls. i < length xs \<Longrightarrow>
   concat (map (\<lambda>i. map g (f (xs ! i))) ls) = map g (concat (map (\<lambda>i. f (xs ! i)) ls))"
  by (induction ls) auto

section \<open>Columns, alignment and concatenation\<close>

lemma position_SomeD: "position k cs = Some i \<Longrightarrow> i < length cs \<and> cs ! i = k"
  by (induction cs arbitrary: i) (auto split: if_splits)

lemma position_None: "position k cs = None \<longleftrightarrow> k \<notin> set cs"
  by (induction cs) auto

lemma positions_empty: "positions k cs = [] \<longleftrightarrow> k \<notin> set cs"
  by (induction cs) auto

lemma positions_first: "positions k cs = i # ps \<Longrightarrow> position k cs = Some i"
proof (induction cs arbitrary: i ps)
  case Nil
  then show ?case by simp
next
  case (Cons c cs)
  show ?case
  proof (cases "c = k")
    case True
    then show ?thesis using Cons.prems by simp
  next
    case False
    then obtain j qs where "positions k cs = j # qs" "i = Suc j"
      using Cons.prems by (cases "positions k cs") auto
    then show ?thesis using Cons.IH False by simp
  qed
qed

lemma positions_distinct: "distinct cs \<Longrightarrow> k \<in> set cs \<Longrightarrow> length (positions k cs) = 1"
proof (induction cs)
  case Nil
  then show ?case by simp
next
  case (Cons c cs)
  show ?case
  proof (cases "c = k")
    case True
    then have "k \<notin> set cs" using Cons.prems by simp
    then have "positions k cs = []" by (simp add: positions_empty)
    then show ?thesis using True by simp
  next
    case False
    then show ?thesis using Cons by simp
  qed
qed

lemma one_column_position:
  assumes "one_column k d"
  obtains i where "positions k (columns d) = [i]" and "position k (columns d) = Some i"
    and "i < length (columns d)"
proof -
  from assms obtain i where i: "positions k (columns d) = [i]"
    by (cases "positions k (columns d)") (auto simp: one_column_def)
  from positions_first[OF i] position_SomeD show ?thesis using i that by blast
qed

lemma cell_of_map: "k \<in> set cs \<Longrightarrow> cell_of cs (map g cs) k = g k"
proof -
  assume "k \<in> set cs"
  then obtain i where "position k cs = Some i"
    using position_None[of k cs] by (cases "position k cs") auto
  then show ?thesis using position_SomeD[of k cs i] by (simp add: cell_of_def)
qed

lemma cell_of_map_absent: "k \<notin> set cs \<Longrightarrow> cell_of cs r k = None"
  using position_None[of k cs] by (simp add: cell_of_def)

lemma pick_cells_wf:
  assumes "position k cols = Some i" and "\<forall>(ix, r)\<in>set rs. length r = length cols"
  shows "pick_cells i rs = Inr (map (\<lambda>(ix, r). (ix, cell_of cols r k)) rs)"
  using assms(2)
proof (induction rs)
  case Nil
  then show ?case by simp
next
  case (Cons x rs)
  obtain ix r where x: "x = (ix, r)" by (cases x)
  have "i < length r" using Cons.prems x position_SomeD[OF assms(1)] by simp
  then show ?case using Cons x assms(1) by (simp add: cell_of_def)
qed

lemma frame_getitem_one:
  assumes "wf_frame d" and "one_column k d"
  shows "frame_getitem d k = Inr (Series \<lparr>sname = Some k, items = column_items k d\<rparr>)"
proof -
  from one_column_position[OF assms(2)] obtain i where
    i: "positions k (columns d) = [i]" "position k (columns d) = Some i" by blast
  have "\<forall>(ix, r)\<in>set (rows d). length r = length (columns d)"
    using assms(1) by (simp add: wf_frame_def list_all_iff)
  from pick_cells_wf[OF i(2) this] show ?thesis
    using i(1) by (simp add: frame_getitem_def column_items_def)
qed

lemma realign_row_wf:
  assumes "length r = length cols"
  shows "realign_row cols cs r = Inr (map (cell_of cols r) cs)"
proof -
  have "(case position c cols of None \<Rightarrow> Inr None
          | Some i \<Rightarrow> if i < length r then Inr (r ! i) else Inl MalformedBlock)
        = Inr (cell_of cols r c)" for c
    using position_SomeD[of c cols] assms by (cases "position c cols") (auto simp: cell_of_def)
  then show ?thesis
    unfolding realign_row_def by (intro mapM_total) simp
qed

lemma realign_rows_wf:
  assumes "\<forall>(ix, r)\<in>set rs. length r = length cols"
  shows "realign_rows cols cs rs = Inr (map (\<lambda>(ix, r). (ix, map (cell_of cols r) cs)) rs)"
  unfolding realign_rows_def
  by (rule mapM_total) (use assms realign_row_wf in fastforce)

lemma column_items_realigned:
  assumes "k \<in> set cs"
  shows "column_items k \<lparr>columns = cs, rows = map (\<lambda>(ix, r). (ix, map (cell_of cols r) cs)) rs\<rparr>
         = map (\<lambda>(ix, r). (ix, cell_of cols r k)) rs"
proof -
  have "cell_of cs (map (cell_of cols r) cs) k = cell_of cols r k" for r :: "'a option list"
    by (rule cell_of_map[OF assms])
  then show ?thesis by (simp add: column_items_def comp_def case_prod_unfold)
qed

lemma frame_append_distinct:
  assumes a: "wf_frame a" "distinct (columns a)" "k \<in> set (columns a)"
    and b: "wf_frame b" "distinct (columns b)" "k \<in> set (columns b)"
  shows "\<exists>c. frame_append a b = Inr c \<and> wf_frame c \<and> distinct (columns c) \<and> k \<in> set (columns c)
           \<and> column_items k c = column_items k a @ column_items k b"
proof (cases "columns a = columns b")
  case True
  then show ?thesis using a b
    by (simp add: frame_append_def wf_frame_def column_items_def)
next
  case False
  let ?cs = "columns a @ filter (\<lambda>c. c \<notin> set (columns a)) (columns b)"
  let ?ra = "map (\<lambda>(ix, r). (ix, map (cell_of (columns a) r) ?cs)) (rows a)"
  let ?rb = "map (\<lambda>(ix, r). (ix, map (cell_of (columns b) r) ?cs)) (rows b)"
  let ?c = "\<lparr>columns = ?cs, rows = ?ra @ ?rb\<rparr>"
  have wa: "\<forall>(ix, r)\<in>set (rows a). length r = length (columns a)"
    and wb: "\<forall>(ix, r)\<in>set (rows b). length r = length (columns b)"
    using a(1) b(1) by (simp_all add: wf_frame_def list_all_iff)
  have app: "frame_append a b = Inr ?c"
    using False a(2) b(2) realign_rows_wf[OF wa, of ?cs] realign_rows_wf[OF wb, of ?cs]
    by (simp add: frame_append_def Let_def)
  have k: "k \<in> set ?cs" using a(3) by simp
  have wf: "wf_frame ?c"
    by (auto simp: wf_frame_def list_all_iff)
  have di: "distinct ?cs" using a(2) b(2) by auto
  have "column_items k ?c
        = column_items k \<lparr>columns = ?cs, rows = ?ra\<rparr> @ column_items k \<lparr>columns = ?cs, rows = ?rb\<rparr>"
    by (simp add: column_items_def)
  also have "\<dots> = column_items k a @ column_items k b"
    by (simp only: column_items_realigned[OF k]) (simp add: column_items_def)
  finally show ?thesis using app wf di k by (intro exI[of _ ?c]) simp
qed

lemma frame_append_same:
  assumes "wf_frame a" "columns a = cs" "wf_frame b" "columns b = cs"
  shows "\<exists>c. frame_append a b = Inr c \<and> wf_frame c \<and> columns c = cs
           \<and> column_items k c = column_items k a @ column_items k b
           \<and> rows c = rows a @ rows b"
  using assms by (simp add: frame_append_def wf_frame_def column_items_def)

lemma appendFrames_frames:
  "appendFrames (DataFrame a) (DataFrame b) = ebind (frame_append a b) (\<lambda>d. Inr (DataFrame d))"
  by (simp add: appendFrames_def)

lemma run_plan_invariant:
  assumes step: "\<And>a b. P a \<Longrightarrow> P b \<Longrightarrow> \<exists>c. frame_append a b = Inr c \<and> P c \<and> F c = F a @ F b"
    and "\<forall>i\<in>set (leaves p). i < length dfs \<and> P (dfs ! i)"
  shows "\<exists>c. run_plan appendFrames (map DataFrame dfs) p = Inr (DataFrame c) \<and> P c
           \<and> F c = concat (map (\<lambda>i. F (dfs ! i)) (leaves p))"
  using assms(2)
proof (induction p)
  case (Leaf i)
  then show ?case by simp
next
  case (Node l r)
  from Node obtain a where a: "run_plan appendFrames (map DataFrame dfs) l = Inr (DataFrame a)"
    "P a" "F a = concat (map (\<lambda>i. F (dfs ! i)) (leaves l))" by auto
  from Node obtain b where b: "run_plan appendFrames (map DataFrame dfs) r = Inr (DataFrame b)"
    "P b" "F b = concat (map (\<lambda>i. F (dfs ! i)) (leaves r))" by auto
  from step[OF a(2) b(2)] obtain c where "frame_append a b = Inr c" "P c" "F c = F a @ F b"
    by blast
  then show ?case using a b by (simp add: appendFrames_frames)
qed

lemma foldM_invariant:
  assumes step: "\<And>a b. P a \<Longrightarrow> P b \<Longrightarrow> \<exists>c. frame_append a b = Inr c \<and> P c \<and> F c = F a @ F b"
    and "P a" and "\<forall>d\<in>set ds. P d"
  shows "\<exists>c. foldM pd_append (DataFrame a) (map DataFrame ds) = Inr (DataFrame c) \<and> P c
           \<and> F c = F a @ concat (map F ds)"
  using assms(2,3)
proof (induction ds arbitrary: a)
  case Nil
  then show ?case by simp
next
  case (Cons d ds)
  from step[of a d] Cons.prems obtain c where c: "frame_append a d = Inr c" "P c" "F c = F a @ F d"
    by auto
  from Cons.IH[OF c(2)] Cons.prems obtain e where
    "foldM pd_append (DataFrame c) (map DataFrame ds) = Inr (DataFrame e)" "P e"
    "F e = F c @ concat (map F ds)" by auto
  then show ?case using c by simp
qed

lemma concat_blocks_invariant:
  assumes step: "\<And>a b. P a \<Longrightarrow> P b \<Longrightarrow> \<exists>c. frame_append a b = Inr c \<and> P c \<and> F c = F a @ F b"
    and "dfs \<noteq> []" and "\<forall>d\<in>set dfs. P d"
  shows "\<exists>c. concat_blocks (map DataFrame dfs) = Inr (DataFrame c) \<and> P c
           \<and> F c = concat (map F dfs)"
proof -
  obtain a ds where dfs: "dfs = a # ds" using assms(2) by (cases dfs) auto
  from foldM_invariant[of P F a ds, OF step] assms(3) dfs show ?thesis
    by (auto simp: concat_blocks_def)
qed

lemma collect_invariant:
  assumes step: "\<And>a b. P a \<Longrightarrow> P b \<Longrightarrow> \<exists>c. frame_append a b = Inr c \<and> P c \<and> F c = F a @ F b"
    and "rdd_evaluate r = Inr (map DataFrame dfs)" and "dfs \<noteq> []"
    and "valid_plan (length dfs) p" and "\<forall>d\<in>set dfs. P d"
  shows "\<exists>c. rdd_reduce p appendFrames r = Inr (DataFrame c) \<and> P c
           \<and> F c = concat (map (\<lambda>i. F (dfs ! i)) (leaves p))"
proof -
  have "\<forall>i\<in>set (leaves p). i < length dfs \<and> P (dfs ! i)"
    using assms(5) valid_plan_set[OF assms(4)] by auto
  from run_plan_invariant[of P F p dfs, OF step this] show ?thesis
    using assms(2,3) by (simp add: rdd_reduce_def)
qed

lemma in_order_valid: "in_order n p \<Longrightarrow> valid_plan n p"
  by (simp add: in_order_def valid_plan_def)

lemma in_order_concat:
  "in_order (length xs) p \<Longrightarrow> concat (map (\<lambda>i. f (xs ! i)) (leaves p)) = concat (map f xs)"
proof -
  assume "in_order (length xs) p"
  then have "map (\<lambda>i. f (xs ! i)) (leaves p) = map f (map (\<lambda>i. xs ! i) [0..<length xs])"
    by (simp add: in_order_def comp_def)
  then show ?thesis by (simp only: map_nth)
qed

lemma select_core:
  assumes step: "\<And>a b. P a \<Longrightarrow> P b \<Longrightarrow>
        \<exists>c. frame_append a b = Inr c \<and> P c \<and> column_items k c = column_items k a @ column_items k b"
    and proj: "\<And>d. P d \<Longrightarrow> wf_frame d \<and> one_column k d"
    and ev: "rdd_evaluate (rdd_of self) = Inr (map DataFrame dfs)"
    and ne: "dfs \<noteq> []"
    and all: "\<forall>d\<in>set dfs. P d"
    and vp: "valid_plan (length dfs) p"
  shows "\<exists>b S T. concat_blocks (map DataFrame dfs) = Inr (DataFrame b)
           \<and> pd_getitem k (DataFrame b) = Inr T
           \<and> T = Series \<lparr>sname = Some k, items = concat (map (column_items k) dfs)\<rparr>
           \<and> ebind (getitem self k) (collect p) = Inr S
           \<and> ebind (collect p self) (pd_getitem k) = Inr S
           \<and> same_rows S T
           \<and> (in_order (length dfs) p \<longrightarrow> S = T)"
proof -
  let ?proj = "\<lambda>d. \<lparr>sname = Some k, items = column_items k d\<rparr>"
  let ?ss = "map ?proj dfs"
  let ?S = "Series \<lparr>sname = Some k, items = concat (map (\<lambda>i. column_items k (dfs ! i)) (leaves p))\<rparr>"
  let ?T = "Series \<lparr>sname = Some k, items = concat (map (column_items k) dfs)\<rparr>"
  have get: "frame_getitem d k = Inr (Series (?proj d))" if "P d" for d
    using proj[OF that] frame_getitem_one by blast
  have in_range: "\<forall>i\<in>set (leaves p). i < length dfs"
    using valid_plan_set[OF vp] by auto
  \<comment> \<open>the direct concatenation and its projection\<close>
  from concat_blocks_invariant[of P "column_items k" dfs, OF step ne all]
  obtain b where b: "concat_blocks (map DataFrame dfs) = Inr (DataFrame b)" "P b"
    "column_items k b = concat (map (column_items k) dfs)" by blast
  have 1: "pd_getitem k (DataFrame b) = Inr ?T"
    using get[OF b(2)] b(3) by simp
  \<comment> \<open>collect, then select\<close>
  from collect_invariant[of P "column_items k" "rdd_of self" dfs p, OF step ev ne vp all]
  obtain c where c: "collect p self = Inr (DataFrame c)" "P c"
    "column_items k c = concat (map (\<lambda>i. column_items k (dfs ! i)) (leaves p))"
    unfolding collect_def by blast
  have 2: "ebind (collect p self) (pd_getitem k) = Inr ?S"
    using get[OF c(2)] c(1,3) by simp
  \<comment> \<open>select, then collect\<close>
  have "\<forall>v\<in>set (map DataFrame dfs).
          pd_getitem k v = Inr (case v of DataFrame d \<Rightarrow> Series (?proj d) | Series s \<Rightarrow> v)"
    using get all by auto
  from rdd_evaluate_map[OF ev this]
  have ev': "rdd_evaluate (map (\<lambda>part. ebind part (mapM (pd_getitem k))) (rdd_of self))
             = Inr (map Series ?ss)"
    by (simp add: comp_def)
  have "rdd_reduce p appendFrames (map (\<lambda>part. ebind part (mapM (pd_getitem k))) (rdd_of self))
        = Inr (Series \<lparr>sname = Some k, items = concat (map (\<lambda>i. items (?ss ! i)) (leaves p))\<rparr>)"
    by (rule collect_series[OF ev']) (use vp ne in auto)
  moreover have "concat (map (\<lambda>i. items (?ss ! i)) (leaves p))
        = concat (map (\<lambda>i. column_items k (dfs ! i)) (leaves p))"
    using in_range by (intro arg_cong[of _ _ concat] map_cong) simp_all
  ultimately have 3: "ebind (getitem self k) (collect p) = Inr ?S"
    by (simp add: getitem_def rdd_map_def kwargs_ok_def collect_def fromRDD_def PRDD_def)
  have 4: "same_rows ?S ?T"
    using valid_plan_concat[OF vp, of "column_items k"] by simp
  have 5: "in_order (length dfs) p \<longrightarrow> ?S = ?T"
    using in_order_concat[of dfs p "column_items k"] by simp
  show ?thesis using b(1) 1 2 3 4 5 by blast
qed

lemma frame_append_columns:
  assumes "columns a = cs" "columns b = cs"
  shows "\<exists>c. frame_append a b = Inr c \<and> columns c = cs \<and> rows c = rows a @ rows b"
  using assms by (simp add: frame_append_def)

section \<open>Programs on the store\<close>

lemma PRDD_obj_run: "PRDD_obj rdd H = (H @ [Some rdd], Inr (length H))"
  by (simp add: PRDD_obj_def new_object_def init_obj_def set_rdd_def sbind_def sreturn_def)

lemma get_rdd_run:
  "self < length H \<Longrightarrow> H ! self = Some r \<Longrightarrow> get_rdd self H = (H, Inr r)"
  by (simp add: get_rdd_def)

lemma get_rdd_store: "fst (get_rdd self H) = H"
  by (simp add: get_rdd_def)

lemma transform_obj_store:
  "(\<exists>e. sbind (get_rdd self) (\<lambda>r. sbind (slift (g r)) (\<lambda>r'. fromRDD_obj r')) H = (H, Inl e))
   \<or> (\<exists>r'. sbind (get_rdd self) (\<lambda>r. sbind (slift (g r)) (\<lambda>r'. fromRDD_obj r')) H
            = (H @ [Some r'], Inr (length H)))"
proof (cases "snd (get_rdd self H)")
  case (Inl e)
  then show ?thesis
    using get_rdd_store[of self H] by (cases "get_rdd self H") (simp add: sbind_def)
next
  case (Inr r)
  then have g: "get_rdd self H = (H, Inr r)"
    using get_rdd_store[of self H] by (cases "get_rdd self H") simp
  show ?thesis
    by (cases "g r") (simp_all add: sbind_def slift_def g fromRDD_obj_def PRDD_obj_run)
qed

lemma action_obj_store:
  "fst (sbind (get_rdd self) (\<lambda>r. slift (g r)) H) = H"
  using get_rdd_store[of self H]
  by (cases "get_rdd self H"; cases "snd (get_rdd self H)") (auto simp: sbind_def slift_def)

section \<open>Counters and accumulators\<close>

lemma opt_combine_assoc:
  "(\<And>x y z. f (f x y) z = f x (f y z)) \<Longrightarrow>
   opt_combine f (opt_combine f a b) c = opt_combine f a (opt_combine f b c)"
  by (cases a; cases b; cases c) auto

lemma opt_combine_commute:
  "(\<And>x y. f x y = f y x) \<Longrightarrow> opt_combine f a b = opt_combine f b a"
  by (cases a; cases b) auto

lemma opt_combine_None_right [simp]: "opt_combine f a None = a"
  by (cases a) auto

lemma merge_counter_assoc:
  "merge_counter (merge_counter a b) c = merge_counter a (merge_counter b c)"
  by (simp add: merge_counter_def opt_combine_assoc max.assoc min.assoc)

lemma merge_counter_commute: "merge_counter a b = merge_counter b a"
  by (simp add: merge_counter_def opt_combine_commute[of max] opt_combine_commute[of min]
      max.commute min.commute)

lemma merge_counter_empty_left [simp]: "merge_counter empty_counter c = c"
  by (simp add: merge_counter_def empty_counter_def)

lemma merge_counter_empty_right [simp]: "merge_counter c empty_counter = c"
  by (simp add: merge_counter_def empty_counter_def)

lemma counter_add_merge:
  "counter_add c x = merge_counter c (counter_add empty_counter x)"
  by (simp add: counter_add_def merge_counter_def empty_counter_def)

lemma foldl_counter_add:
  "foldl counter_add c vs = merge_counter c (foldl counter_add empty_counter vs)"
proof (induction vs arbitrary: c)
  case Nil
  then show ?case by simp
next
  case (Cons x vs)
  have "foldl counter_add c (x # vs) = merge_counter (counter_add c x) (foldl counter_add empty_counter vs)"
    using Cons.IH[of "counter_add c x"] by simp
  also have "\<dots> = merge_counter c (merge_counter (counter_add empty_counter x) (foldl counter_add empty_counter vs))"
    using counter_add_merge[of c x] by (simp add: merge_counter_assoc)
  also have "\<dots> = merge_counter c (foldl counter_add empty_counter (x # vs))"
    using Cons.IH[of "counter_add empty_counter x"] by simp
  finally show ?case .
qed

lemma mapM_map: "mapM f (map h xs) = mapM (\<lambda>x. f (h x)) xs"
  by (induction xs) auto

lemma mapM_append:
  "mapM f (xs @ ys) = ebind (mapM f xs) (\<lambda>a. ebind (mapM f ys) (\<lambda>b. Inr (a @ b)))"
proof (induction xs)
  case Nil
  then show ?case by (cases "mapM f ys") auto
next
  case (Cons x xs)
  show ?case
    by (cases "f x"; cases "mapM f xs"; cases "mapM f ys") (simp_all add: Cons.IH)
qed

lemma add_frame_tabulate:
  "add_frame (tabulate cols g) df =
     ebind (mapM (column_values df) cols)
       (\<lambda>_. Inr (tabulate cols (\<lambda>k. merge_counter (g k) (block_counter df k))))"
proof (induction cols)
  case Nil
  then show ?case by (simp add: add_frame_def tabulate_def)
next
  case (Cons k cols)
  then show ?case
    using foldl_counter_add[of "g k"]
    by (cases "column_values df k"; cases "mapM (column_values df) cols")
      (simp_all add: add_frame_def tabulate_def block_counter_def)
qed

lemma foldM_add_frame:
  "foldM add_frame (tabulate cols g) dfs =
     ebind (mapM (\<lambda>df. mapM (column_values df) cols) dfs)
       (\<lambda>_. Inr (tabulate cols (\<lambda>k. merge_counter (g k) (part_counter dfs k))))"
proof (induction dfs arbitrary: g)
  case Nil
  then show ?case by simp
next
  case (Cons df dfs)
  show ?case
    by (cases "mapM (column_values df) cols"; cases "mapM (\<lambda>df. mapM (column_values df) cols) dfs")
      (simp_all add: add_frame_tabulate Cons.IH merge_counter_assoc)
qed

lemma ColumnStatCounters_eq:
  "ColumnStatCounters dfs cols =
     (if cols = [] then Inl ValueError
      else ebind (mapM (\<lambda>df. mapM (column_values df) cols) dfs)
             (\<lambda>_. Inr (tabulate cols (part_counter dfs))))"
  using foldM_add_frame[of cols "\<lambda>_. empty_counter" dfs]
  by (simp add: ColumnStatCounters_def tabulate_def)

lemma part_counter_append:
  "part_counter (xs @ ys) k = merge_counter (part_counter xs k) (part_counter ys k)"
  by (induction xs) (simp_all add: merge_counter_assoc)

lemma map_of_tabulate: "k \<in> set cols \<Longrightarrow> map_of (tabulate cols h) k = Some (h k)"
  by (induction cols) (auto simp: tabulate_def)

lemma merge_stats_tabulate:
  "merge_stats (tabulate cols g) (tabulate cols h) = tabulate cols (\<lambda>k. merge_counter (g k) (h k))"
proof -
  have "merge_stats (tabulate cols g) (tabulate cols h)
        = map (\<lambda>k. (k, case map_of (tabulate cols h) k of None \<Rightarrow> g k | Some d \<Rightarrow> merge_counter (g k) d)) cols"
    by (simp add: merge_stats_def tabulate_def[of cols g] comp_def)
  also have "\<dots> = map (\<lambda>k. (k, merge_counter (g k) (h k))) cols"
    by (rule map_cong) (simp_all add: map_of_tabulate)
  finally show ?thesis by (simp add: tabulate_def)
qed

lemma ColumnStatCounters_append:
  "ColumnStatCounters (P1 @ P2) cols =
     ebind (ColumnStatCounters P1 cols)
       (\<lambda>a. ebind (ColumnStatCounters P2 cols) (\<lambda>b. Inr (merge_stats a b)))"
proof -
  have "part_counter (P1 @ P2) = (\<lambda>k. merge_counter (part_counter P1 k) (part_counter P2 k))"
    by (rule ext) (rule part_counter_append)
  then show ?thesis
    by (cases "mapM (\<lambda>df. mapM (column_values df) cols) P1";
        cases "mapM (\<lambda>df. mapM (column_values df) cols) P2")
      (simp_all add: ColumnStatCounters_eq mapM_append merge_stats_tabulate)
qed

lemma csum_fold: "fold merge_counter cs c = merge_counter c (csum cs)"
proof (induction cs arbitrary: c)
  case Nil
  then show ?case by (simp add: csum_def)
next
  case (Cons x cs)
  have "fold merge_counter (x # cs) c = merge_counter (merge_counter x c) (csum cs)"
    using Cons.IH[of "merge_counter x c"] by simp
  also have "\<dots> = merge_counter c (merge_counter x (csum cs))"
    by (simp add: merge_counter_commute[of x c] merge_counter_assoc)
  also have "\<dots> = merge_counter c (csum (x # cs))"
    using Cons.IH[of "merge_counter x empty_counter"] by (simp add: csum_def)
  finally show ?case .
qed

lemma csum_append: "csum (xs @ ys) = merge_counter (csum xs) (csum ys)"
  using csum_fold[of ys "csum xs"] by (simp add: csum_def)

lemma csum_single [simp]: "csum [c] = c"
  by (simp add: csum_def)

lemma csum_mset: "mset xs = mset ys \<Longrightarrow> csum xs = csum ys"
proof -
  assume eq: "mset xs = mset ys"
  have "merge_counter x \<circ> merge_counter y = merge_counter y \<circ> merge_counter x" for x y
    by (rule ext) (simp add: merge_counter_assoc[symmetric] merge_counter_commute[of x y])
  then have "fold merge_counter xs = fold merge_counter ys"
    using eq by (intro fold_multiset_equiv) auto
  then show ?thesis by (simp add: csum_def)
qed

lemma run_plan_accumulators:
  "\<forall>i\<in>set (leaves p). i < length gs \<Longrightarrow>
   run_plan reduceFunc (map (tabulate cols) gs) p =
     Inr (tabulate cols (\<lambda>k. csum (map (\<lambda>i. (gs ! i) k) (leaves p))))"
proof (induction p)
  case (Leaf i)
  then show ?case by simp
next
  case (Node l r)
  then show ?case
    by (simp add: reduceFunc_def merge_stats_tabulate csum_append)
qed

lemma stats_evaluate:
  "rdd_evaluate (rdd_mapPartitions (\<lambda>i. ebind (ColumnStatCounters i cols) (\<lambda>a. Inr [a])) r) = Inr vs \<Longrightarrow>
   list_all2 (\<lambda>part a. \<exists>i. part = Inr i \<and> ColumnStatCounters i cols = Inr a) r vs"
proof (induction r arbitrary: vs)
  case Nil
  then show ?case by (simp add: rdd_evaluate_def rdd_mapPartitions_def)
next
  case (Cons part r)
  from Cons.prems obtain i a ys where
    part: "part = Inr i" and a: "ColumnStatCounters i cols = Inr a"
    and ys: "mapM (\<lambda>part. part) (rdd_mapPartitions (\<lambda>i. ebind (ColumnStatCounters i cols) (\<lambda>a. Inr [a])) r) = Inr ys"
    and vs: "vs = a # concat ys"
    by (auto simp: rdd_evaluate_def rdd_mapPartitions_def ebind_Inr_iff)
  have "rdd_evaluate (rdd_mapPartitions (\<lambda>i. ebind (ColumnStatCounters i cols) (\<lambda>a. Inr [a])) r) = Inr (concat ys)"
    using ys by (simp add: rdd_evaluate_def)
  from Cons.IH[OF this] show ?case using part a vs by simp
qed

lemma ex_map_tabulate:
  "\<forall>a\<in>set vs. \<exists>g. a = tabulate cols g \<Longrightarrow> \<exists>gs. vs = map (tabulate cols) gs"
proof (induction vs)
  case Nil
  then show ?case by simp
next
  case (Cons a vs)
  then obtain g gs where "a = tabulate cols g" "vs = map (tabulate cols) gs" by auto
  then have "a # vs = map (tabulate cols) (g # gs)" by simp
  then show ?case by (rule exI[of _ "g # gs"])
qed

lemma ColumnStatCounters_Inr:
  "ColumnStatCounters i cols = Inr a \<Longrightarrow>
   cols \<noteq> [] \<and> a = tabulate cols (part_counter i)
   \<and> (\<exists>ys. mapM (\<lambda>df. mapM (column_values df) cols) i = Inr ys)"
  by (auto simp: ColumnStatCounters_eq ebind_Inr_iff split: if_splits)

lemma list_all2_left:
  "list_all2 P xs ys \<Longrightarrow> x \<in> set xs \<Longrightarrow> \<exists>y\<in>set ys. P x y"
  by (induction xs ys rule: list_all2_induct) auto

lemma list_all2_right:
  "list_all2 P xs ys \<Longrightarrow> y \<in> set ys \<Longrightarrow> \<exists>x\<in>set xs. P x y"
  by (induction xs ys rule: list_all2_induct) auto

lemma csum_plan:
  assumes "valid_plan (length gs) p"
  shows "csum (map (\<lambda>i. (gs ! i) k) (leaves p)) = csum (map (\<lambda>g. g k) gs)"
proof -
  have "mset (map (\<lambda>g. g k) (map (\<lambda>i. gs ! i) (leaves p))) = mset (map (\<lambda>g. g k) gs)"
    using valid_plan_mset[OF assms] unfolding mset_map by (rule arg_cong)
  then have "csum (map (\<lambda>g. g k) (map (\<lambda>i. gs ! i) (leaves p))) = csum (map (\<lambda>g. g k) gs)"
    by (rule csum_mset)
  then show ?thesis by (simp add: comp_def)
qed

lemma reduce_accumulators:
  assumes "valid_plan (length gs) p" and "gs \<noteq> []"
  shows "run_plan reduceFunc (map (tabulate cols) gs) p =
           Inr (tabulate cols (\<lambda>k. csum (map (\<lambda>g. g k) gs)))"
proof -
  have "\<forall>i\<in>set (leaves p). i < length gs"
    using valid_plan_set[OF assms(1)] by auto
  from run_plan_accumulators[OF this, of cols] show ?thesis
    by (simp add: csum_plan[OF assms(1)])
qed

lemma stats_order:
  assumes "valid_plan (length (rdd_of self)) p" and "valid_plan (length (rdd_of self)) q"
  shows "stats p self cols = stats q self cols"
proof (cases "rdd_evaluate (rdd_mapPartitions (\<lambda>i. ebind (ColumnStatCounters i cols) (\<lambda>a. Inr [a])) (rdd_of self))")
  case (Inl e)
  then show ?thesis by (simp add: stats_def rdd_reduce_def)
next
  case (Inr vs)
  from stats_evaluate[OF Inr]
  have all2: "list_all2 (\<lambda>part a. \<exists>i. part = Inr i \<and> ColumnStatCounters i cols = Inr a) (rdd_of self) vs" .
  then have len: "length vs = length (rdd_of self)"
    by (simp add: list_all2_lengthD)
  have "\<forall>a\<in>set vs. \<exists>g. a = tabulate cols g"
    using list_all2_right[OF all2] ColumnStatCounters_Inr by blast
  then obtain gs where gs: "vs = map (tabulate cols) gs"
    using ex_map_tabulate by blast
  show ?thesis
  proof (cases "vs = []")
    case True
    then show ?thesis using Inr by (simp add: stats_def rdd_reduce_def)
  next
    case False
    then have ne: "gs \<noteq> []" using gs by auto
    have vp: "valid_plan (length gs) p" and vq: "valid_plan (length gs) q"
      using assms len gs by auto
    show ?thesis
      using Inr False reduce_accumulators[OF vp ne, of cols] reduce_accumulators[OF vq ne, of cols]
      by (simp add: stats_def rdd_reduce_def gs)
  qed
qed

lemma mapM_const_result:
  "mapM (\<lambda>i. ebind (H i) (\<lambda>_. Inr (K i))) xs = ebind (mapM H xs) (\<lambda>_. Inr (map K xs))"
proof (induction xs)
  case Nil
  then show ?case by simp
next
  case (Cons x xs)
  show ?case by (cases "H x"; cases "mapM H xs") (simp_all add: Cons.IH)
qed

lemma mapM_concat:
  "mapM F (concat parts) = ebind (mapM (mapM F) parts) (\<lambda>ys. Inr (concat ys))"
proof (induction parts)
  case Nil
  then show ?case by simp
next
  case (Cons x xs)
  show ?case by (cases "mapM F x"; cases "mapM (mapM F) xs") (simp_all add: mapM_append Cons.IH)
qed

lemma csum_Cons: "csum (x # xs) = merge_counter x (csum xs)"
  using csum_append[of "[x]" xs] by simp

lemma csum_Nil [simp]: "csum [] = empty_counter"
  by (simp add: csum_def)

lemma part_counter_concat:
  "part_counter (concat parts) k = csum (map (\<lambda>i. part_counter i k) parts)"
  by (induction parts) (simp_all add: part_counter_append csum_Cons)

lemma stats_is_ColumnStatCounters:
  assumes vp: "valid_plan (length parts) p" and ne: "parts \<noteq> []"
  shows "stats p (PRDD (map Inr parts)) cols = ColumnStatCounters (concat parts) cols"
proof (cases "cols = []")
  case True
  obtain i rest where "parts = i # rest" using ne by (cases parts) auto
  then show ?thesis using True
    by (simp add: stats_def PRDD_def rdd_reduce_def rdd_evaluate_def rdd_mapPartitions_def
        ColumnStatCounters_def)
next
  case False
  let ?F = "\<lambda>df. mapM (column_values df) cols"
  let ?gs = "map part_counter parts"
  have "mapM (\<lambda>part. part)
          (rdd_mapPartitions (\<lambda>i. ebind (ColumnStatCounters i cols) (\<lambda>a. Inr [a])) (map Inr parts))
        = mapM (\<lambda>i. ebind (mapM ?F i) (\<lambda>_. Inr [tabulate cols (part_counter i)])) parts"
    using False by (simp add: rdd_mapPartitions_def mapM_map comp_def ColumnStatCounters_eq ebind_assoc)
  also have "\<dots> = ebind (mapM (mapM ?F) parts)
                     (\<lambda>_. Inr (map (\<lambda>i. [tabulate cols (part_counter i)]) parts))"
    by (rule mapM_const_result)
  finally have ev: "rdd_evaluate
          (rdd_mapPartitions (\<lambda>i. ebind (ColumnStatCounters i cols) (\<lambda>a. Inr [a])) (map Inr parts))
        = ebind (mapM (mapM ?F) parts) (\<lambda>_. Inr (map (tabulate cols) ?gs))"
    by (simp add: rdd_evaluate_def ebind_assoc comp_def concat_map_singleton)
  have vp': "valid_plan (length ?gs) p" using vp by simp
  have ne': "?gs \<noteq> []" using ne by simp
  have red: "run_plan reduceFunc (map (tabulate cols) ?gs) p
        = Inr (tabulate cols (part_counter (concat parts)))"
  proof -
    have "(\<lambda>k. csum (map (\<lambda>g. g k) ?gs)) = part_counter (concat parts)"
      by (rule ext) (simp add: part_counter_concat comp_def)
    then show ?thesis using reduce_accumulators[OF vp' ne', of cols] by simp
  qed
  have "stats p (PRDD (map Inr parts)) cols
        = ebind (mapM (mapM ?F) parts) (\<lambda>_. Inr (tabulate cols (part_counter (concat parts))))"
    using ne red by (cases "mapM (mapM ?F) parts") (simp_all add: stats_def PRDD_def rdd_reduce_def ev)
  also have "\<dots> = ColumnStatCounters (concat parts) cols"
    using False by (simp add: ColumnStatCounters_eq mapM_concat ebind_assoc)
  finally show ?thesis .
qed

lemma column_values_Inr:
  "column_values x k = Inr vs \<Longrightarrow> \<exists>d. x = DataFrame d \<and> k \<in> set (columns d)"
proof (cases x)
  case (DataFrame d)
  assume "column_values x k = Inr vs"
  then have "positions k (columns d) \<noteq> []"
    by (auto simp: DataFrame column_values_def frame_getitem_def ebind_Inr_iff)
  then show ?thesis using DataFrame by (simp add: positions_empty)
next
  case (Series s)
  assume "column_values x k = Inr vs"
  then show ?thesis by (simp add: Series column_values_def)
qed

lemma mapM_Inr_all: "mapM f xs = Inr ys \<Longrightarrow> x \<in> set xs \<Longrightarrow> \<exists>y. f x = Inr y"
  by (induction xs arbitrary: ys) (auto simp: ebind_Inr_iff)

lemma ColumnStatCounters_labels:
  assumes "ColumnStatCounters i cols = Inr a" and "x \<in> set i"
  shows "\<exists>d. x = DataFrame d \<and> set cols \<subseteq> set (columns d)"
proof -
  from ColumnStatCounters_Inr[OF assms(1)] obtain ys where
    ne: "cols \<noteq> []" and ys: "mapM (\<lambda>df. mapM (column_values df) cols) i = Inr ys" by blast
  from mapM_Inr_all[OF ys assms(2)] obtain y where y: "mapM (column_values x) cols = Inr y" by blast
  have each: "\<exists>d. x = DataFrame d \<and> k \<in> set (columns d)" if "k \<in> set cols" for k
    using mapM_Inr_all[OF y that] column_values_Inr by blast
  obtain k0 where "k0 \<in> set cols" using ne by (cases cols) auto
  then obtain d where d: "x = DataFrame d" using each by blast
  then have "set cols \<subseteq> set (columns d)" using each by auto
  then show ?thesis using d by blast
qed

section \<open>The claims\<close>

text \<open>
  C1. For rectangular blocks in each of which one column has the label \<open>k\<close>, whose
  labels are not repeated or whose columns are the same in every block: selecting \<open>k\<close>
  and collecting returns exactly the \<open>k\<close>-projection of the direct concatenation of the
  blocks, which is the cells under \<open>k\<close> of every block in order, when the runtime reduces
  in partition order, as it does. Whatever order the runtime reduces in, it returns
  exactly the \<open>k\<close>-projection of what \<open>collect\<close> returns on the original wrapper in
  that order, and that has the rows of the projection of the direct concatenation.
\<close>

theorem select_then_collect:
  assumes ev: "rdd_evaluate (rdd_of self) = Inr (map DataFrame dfs)"
    and ne: "dfs \<noteq> []"
    and blocks: "\<forall>d\<in>set dfs. wf_frame d \<and> one_column k d"
    and schema: "(\<forall>d\<in>set dfs. distinct (columns d)) \<or> (\<forall>d\<in>set dfs. columns d = cs)"
    and vp: "valid_plan (length dfs) p"
  shows "\<exists>b S T. concat_blocks (map DataFrame dfs) = Inr (DataFrame b)
           \<and> pd_getitem k (DataFrame b) = Inr T
           \<and> T = Series \<lparr>sname = Some k, items = concat (map (column_items k) dfs)\<rparr>
           \<and> ebind (getitem self k) (collect p) = Inr S
           \<and> ebind (collect p self) (pd_getitem k) = Inr S
           \<and> same_rows S T
           \<and> (in_order (length dfs) p \<longrightarrow> S = T)"
  using schema
proof
  assume di: "\<forall>d\<in>set dfs. distinct (columns d)"
  let ?P = "\<lambda>d. wf_frame d \<and> distinct (columns d) \<and> k \<in> set (columns d)"
  have k: "k \<in> set (columns d)" if "one_column k d" for d :: "'a frame"
    using that positions_empty[of k "columns d"] by (auto simp: one_column_def)
  have all: "\<forall>d\<in>set dfs. ?P d" using blocks di k by blast
  show ?thesis
  proof (rule select_core[of ?P k self dfs p, OF _ _ ev ne all vp])
    show "\<exists>c. frame_append a b = Inr c \<and> ?P c
            \<and> column_items k c = column_items k a @ column_items k b"
      if "?P a" "?P b" for a b :: "'a frame"
      using frame_append_distinct[of a k b] that by blast
    show "wf_frame d \<and> one_column k d" if "?P d" for d :: "'a frame"
      using that positions_distinct[of "columns d" k] by (simp add: one_column_def)
  qed
next
  assume same: "\<forall>d\<in>set dfs. columns d = cs"
  let ?P = "\<lambda>d. wf_frame d \<and> columns d = cs"
  obtain d0 where "d0 \<in> set dfs" using ne by (cases dfs) auto
  then have one: "length (positions k cs) = 1"
    using blocks same by (auto simp: one_column_def)
  have all: "\<forall>d\<in>set dfs. ?P d" using blocks same by blast
  show ?thesis
  proof (rule select_core[of ?P k self dfs p, OF _ _ ev ne all vp])
    show "\<exists>c. frame_append a b = Inr c \<and> ?P c
            \<and> column_items k c = column_items k a @ column_items k b"
      if "?P a" "?P b" for a b :: "'a frame"
      using frame_append_same[of a cs b k] that by blast
    show "wf_frame d \<and> one_column k d" if "?P d" for d :: "'a frame"
      using that one by (simp add: one_column_def)
  qed
qed

theorem select_then_collect_witness:
  "valid_plan 2 (Node (Leaf 0) (Leaf 1)) \<and> in_order 2 (Node (Leaf 0) (Leaf 1))
   \<and> ebind (getitem (fromRDD [Inr [DataFrame \<lparr>columns = [''k'', ''a''], rows = [(0, [Some (1::nat), Some 10])]\<rparr>],
                              Inr [DataFrame \<lparr>columns = [''b'', ''k''], rows = [(0, [Some 20, Some 2])]\<rparr>]]) ''k'')
        (collect (Node (Leaf 0) (Leaf 1)))
     = Inr (Series \<lparr>sname = Some ''k'', items = [(0, Some 1), (0, Some 2)]\<rparr>)
   \<and> (\<exists>b. concat_blocks [DataFrame \<lparr>columns = [''k'', ''a''], rows = [(0, [Some (1::nat), Some 10])]\<rparr>,
                            DataFrame \<lparr>columns = [''b'', ''k''], rows = [(0, [Some 20, Some 2])]\<rparr>]
             = Inr (DataFrame b)
          \<and> pd_getitem ''k'' (DataFrame b)
             = Inr (Series \<lparr>sname = Some ''k'', items = [(0, Some 1), (0, Some 2)]\<rparr>))"
proof -
  let ?A = "\<lparr>columns = [''k'', ''a''], rows = [(0, [Some (1::nat), Some 10])]\<rparr>"
  let ?B = "\<lparr>columns = [''b'', ''k''], rows = [(0, [Some (20::nat), Some 2])]\<rparr>"
  let ?self = "fromRDD [Inr [DataFrame ?A], Inr [DataFrame ?B]]"
  have ev: "rdd_evaluate (rdd_of ?self) = Inr (map DataFrame [?A, ?B])"
    by (simp add: rdd_evaluate_def fromRDD_def PRDD_def)
  have ne: "[?A, ?B] \<noteq> []" by simp
  have blocks: "\<forall>d\<in>set [?A, ?B]. wf_frame d \<and> one_column ''k'' d"
    by (simp add: wf_frame_def one_column_def)
  have schema: "(\<forall>d\<in>set [?A, ?B]. distinct (columns d)) \<or> (\<forall>d\<in>set [?A, ?B]. columns d = [])"
    by simp
  have vp: "valid_plan (length [?A, ?B]) (Node (Leaf 0) (Leaf 1))"
    by (simp add: valid_plan_def upt_conv_Cons)
  have io: "in_order (length [?A, ?B]) (Node (Leaf 0) (Leaf 1))"
    by (simp add: in_order_def upt_conv_Cons)
  have vp2: "valid_plan 2 (Node (Leaf 0) (Leaf 1))"
    by (simp add: valid_plan_def upt_conv_Cons)
  have io2: "in_order 2 (Node (Leaf 0) (Leaf 1))"
    by (simp add: in_order_def upt_conv_Cons)
  from select_then_collect [OF ev ne blocks schema vp] io
  obtain b S T where r: "concat_blocks (map DataFrame [?A, ?B]) = Inr (DataFrame b)"
    "pd_getitem ''k'' (DataFrame b) = Inr T"
    "T = Series \<lparr>sname = Some ''k'', items = concat (map (column_items ''k'') [?A, ?B])\<rparr>"
    "ebind (getitem ?self ''k'') (collect (Node (Leaf 0) (Leaf 1))) = Inr S" "S = T"
    by blast
  have T: "T = Series \<lparr>sname = Some ''k'', items = [(0, Some 1), (0, Some 2)]\<rparr>"
    using r(3) by (simp add: column_items_def cell_of_def)
  have cb: "concat_blocks [DataFrame ?A, DataFrame ?B] = Inr (DataFrame b)"
    using r(1) by simp
  show ?thesis using vp2 io2 r(2,4,5) T cb by blast
qed

text \<open>
  C2, as the spec has it: \<open>applymap f\<close> followed by \<open>collect\<close> is, up to row order, \<open>f\<close>
  applied to every cell of the direct concatenation of the blocks. It fails when the
  blocks have different columns: the concatenation fills in a missing cell where a block
  has no such column, \<open>f\<close> applied to the concatenation is applied to these cells too,
  and \<open>applymap\<close> followed by \<open>collect\<close> leaves them missing. With one block of
  column \<open>a\<close>, one of column \<open>b\<close> and \<open>f\<close> constant, reduced in partition order:
\<close>

theorem applymap_then_collect_counterexample:
  "in_order 2 (Node (Leaf 0) (Leaf 1))
   \<and> ebind (applymap (fromRDD [Inr [DataFrame \<lparr>columns = [''a''], rows = [(0, [Some (1::nat)])]\<rparr>],
                               Inr [DataFrame \<lparr>columns = [''b''], rows = [(0, [Some 2])]\<rparr>]])
              (\<lambda>x. Some 0) [])
        (collect (Node (Leaf 0) (Leaf 1)))
     = Inr (DataFrame \<lparr>columns = [''a'', ''b''],
                       rows = [(0, [Some 0, None]), (0, [None, Some 0])]\<rparr>)
   \<and> ebind (concat_blocks [DataFrame \<lparr>columns = [''a''], rows = [(0, [Some (1::nat)])]\<rparr>,
                             DataFrame \<lparr>columns = [''b''], rows = [(0, [Some 2])]\<rparr>])
        (pd_applymap (\<lambda>x. Some 0))
     = Inr (DataFrame \<lparr>columns = [''a'', ''b''],
                       rows = [(0, [Some 0, Some 0]), (0, [Some 0, Some 0])]\<rparr>)
   \<and> \<not> same_rows
         (DataFrame \<lparr>columns = [''a'', ''b''],
                      rows = [(0, [Some 0, None]), (0, [None, Some (0::nat)])]\<rparr>)
         (DataFrame \<lparr>columns = [''a'', ''b''],
                      rows = [(0, [Some 0, Some 0]), (0, [Some 0, Some 0])]\<rparr>)"
proof -
  have "mset [(0::nat, [Some (0::nat), None]), (0, [None, Some 0])]
        \<noteq> mset [(0, [Some 0, Some 0]), (0, [Some 0, Some 0])]"
  proof
    assume "mset [(0::nat, [Some (0::nat), None]), (0, [None, Some 0])]
        = mset [(0, [Some 0, Some 0]), (0, [Some 0, Some 0])]"
    then have "set [(0::nat, [Some (0::nat), None]), (0, [None, Some 0])]
        = set [(0, [Some 0, Some 0]), (0, [Some 0, Some 0])]"
      by (rule mset_eq_setD)
    then show False by simp
  qed
  then show ?thesis
    by (simp add: in_order_def upt_conv_Cons applymap_def rdd_map_def kwargs_ok_def collect_def
        fromRDD_def PRDD_def rdd_reduce_def rdd_evaluate_def appendFrames_def concat_blocks_def
        frame_append_def frame_applymap_def realign_rows_def realign_row_def)
qed

text \<open>
  C2, amended. For blocks that all have the same columns, every elementwise function
  \<open>f\<close> and every order the runtime reduces in: \<open>applymap f\<close> followed by \<open>collect\<close>
  returns a frame with the columns of the direct concatenation of the blocks and, up to
  row order, its rows with \<open>f\<close> applied to every cell; in the same row order when the
  runtime reduces in partition order.
\<close>

theorem applymap_then_collect:
  assumes ev: "rdd_evaluate (rdd_of self) = Inr (map DataFrame dfs)"
    and ne: "dfs \<noteq> []"
    and same: "\<forall>d\<in>set dfs. columns d = cs"
    and vp: "valid_plan (length dfs) p"
    and kw: "kwargs_ok kw"
  shows "\<exists>b r. concat_blocks (map DataFrame dfs) = Inr (DataFrame b)
           \<and> columns b = cs \<and> rows b = concat (map rows dfs)
           \<and> ebind (applymap self f kw) (collect p) = Inr (DataFrame r)
           \<and> columns r = columns b
           \<and> mset (rows r) = mset (map (\<lambda>(ix, cells). (ix, map f cells)) (rows b))
           \<and> (in_order (length dfs) p \<longrightarrow>
                rows r = map (\<lambda>(ix, cells). (ix, map f cells)) (rows b))"
proof -
  let ?G = "\<lambda>(ix, cells). (ix, map f cells)"
  let ?P = "\<lambda>d::'a frame. columns d = cs"
  let ?dfs' = "map (frame_applymap f) dfs"
  have step: "\<exists>c. frame_append a b = Inr c \<and> ?P c \<and> rows c = rows a @ rows b"
    if "?P a" "?P b" for a b :: "'a frame"
    using frame_append_columns[of a cs b] that by blast
  have in_range: "\<forall>i\<in>set (leaves p). i < length dfs"
    using valid_plan_set[OF vp] by auto
  from concat_blocks_invariant[of ?P rows dfs, OF step ne same]
  obtain b where b: "concat_blocks (map DataFrame dfs) = Inr (DataFrame b)" "columns b = cs"
    "rows b = concat (map rows dfs)" by blast
  have "\<forall>v\<in>set (map DataFrame dfs).
          pd_applymap f v = Inr (case v of DataFrame d \<Rightarrow> DataFrame (frame_applymap f d) | Series s \<Rightarrow> v)"
    by auto
  from rdd_evaluate_map[OF ev this]
  have ev': "rdd_evaluate (map (\<lambda>part. ebind part (mapM (pd_applymap f))) (rdd_of self))
             = Inr (map DataFrame ?dfs')"
    by (simp add: comp_def)
  have same': "\<forall>d\<in>set ?dfs'. ?P d" using same by (simp add: frame_applymap_def)
  have ne': "?dfs' \<noteq> []" using ne by simp
  have vp': "valid_plan (length ?dfs') p" using vp by simp
  from collect_invariant[of ?P rows _ ?dfs' p, OF step ev' ne' vp' same']
  obtain r where r: "rdd_reduce p appendFrames (map (\<lambda>part. ebind part (mapM (pd_applymap f))) (rdd_of self))
          = Inr (DataFrame r)" "columns r = cs"
    "rows r = concat (map (\<lambda>i. rows (?dfs' ! i)) (leaves p))" by blast
  have 1: "ebind (applymap self f kw) (collect p) = Inr (DataFrame r)"
    using kw r(1) by (simp add: applymap_def rdd_map_def collect_def fromRDD_def PRDD_def)
  have rows_r: "rows r = map ?G (concat (map (\<lambda>i. rows (dfs ! i)) (leaves p)))"
    using concat_map_leaves[OF in_range, of ?G rows] in_range
    by (simp add: r(3) frame_applymap_def cong: map_cong)
  have "mset (concat (map (\<lambda>i. rows (dfs ! i)) (leaves p))) = mset (rows b)"
    using valid_plan_concat[OF vp, of rows] by (simp add: b(3))
  then have 2: "mset (rows r) = mset (map ?G (rows b))"
    unfolding rows_r mset_map by (rule arg_cong)
  have 3: "in_order (length dfs) p \<longrightarrow> rows r = map ?G (rows b)"
    using in_order_concat[of dfs p rows] by (simp add: rows_r b(3))
  show ?thesis using b 1 r(2) 2 3 by blast
qed

theorem applymap_then_collect_witness:
  "valid_plan 2 (Node (Leaf 0) (Leaf 1)) \<and> in_order 2 (Node (Leaf 0) (Leaf 1))
   \<and> kwargs_ok [''preservesPartitioning'']
   \<and> concat_blocks [DataFrame \<lparr>columns = [''k''], rows = [(0, [Some (1::nat)])]\<rparr>,
                      DataFrame \<lparr>columns = [''k''], rows = [(0, [Some 2])]\<rparr>]
      = Inr (DataFrame \<lparr>columns = [''k''], rows = [(0, [Some 1]), (0, [Some 2])]\<rparr>)
   \<and> (\<exists>r. ebind (applymap (fromRDD [Inr [DataFrame \<lparr>columns = [''k''], rows = [(0, [Some (1::nat)])]\<rparr>],
                                     Inr [DataFrame \<lparr>columns = [''k''], rows = [(0, [Some 2])]\<rparr>]])
                  (map_option Suc) [''preservesPartitioning''])
             (collect (Node (Leaf 0) (Leaf 1))) = Inr (DataFrame r)
          \<and> columns r = [''k''] \<and> rows r = [(0, [Some 2]), (0, [Some 3])])"
proof -
  let ?A = "\<lparr>columns = [''k''], rows = [(0, [Some (1::nat)])]\<rparr>"
  let ?B = "\<lparr>columns = [''k''], rows = [(0, [Some (2::nat)])]\<rparr>"
  let ?self = "fromRDD [Inr [DataFrame ?A], Inr [DataFrame ?B]]"
  have ev: "rdd_evaluate (rdd_of ?self) = Inr (map DataFrame [?A, ?B])"
    by (simp add: rdd_evaluate_def fromRDD_def PRDD_def)
  have ne: "[?A, ?B] \<noteq> []" by simp
  have same: "\<forall>d\<in>set [?A, ?B]. columns d = [''k'']" by simp
  have vp: "valid_plan (length [?A, ?B]) (Node (Leaf 0) (Leaf 1))"
    by (simp add: valid_plan_def upt_conv_Cons)
  have io: "in_order (length [?A, ?B]) (Node (Leaf 0) (Leaf 1))"
    by (simp add: in_order_def upt_conv_Cons)
  have kw: "kwargs_ok [''preservesPartitioning'']" by (simp add: kwargs_ok_def)
  have vp2: "valid_plan 2 (Node (Leaf 0) (Leaf 1))"
    by (simp add: valid_plan_def upt_conv_Cons)
  have io2: "in_order 2 (Node (Leaf 0) (Leaf 1))"
    by (simp add: in_order_def upt_conv_Cons)
  have cb: "concat_blocks [DataFrame ?A, DataFrame ?B]
      = Inr (DataFrame \<lparr>columns = [''k''], rows = [(0, [Some 1]), (0, [Some 2])]\<rparr>)"
    by (simp add: concat_blocks_def frame_append_def)
  from applymap_then_collect [OF ev ne same vp kw, of "map_option Suc"] io
  obtain b r where r: "concat_blocks (map DataFrame [?A, ?B]) = Inr (DataFrame b)"
    "rows b = concat (map rows [?A, ?B])"
    "ebind (applymap ?self (map_option Suc) [''preservesPartitioning''])
       (collect (Node (Leaf 0) (Leaf 1))) = Inr (DataFrame r)"
    "columns r = columns b" "columns b = [''k'']"
    "rows r = map (\<lambda>(ix, cells). (ix, map (map_option Suc) cells)) (rows b)"
    by blast
  have "rows r = [(0, [Some 2]), (0, [Some 3])]"
    using r(2,6) by simp
  moreover have "columns r = [''k'']" using r(4,5) by simp
  ultimately show ?thesis using vp2 io2 kw cb r(3) by blast
qed

text \<open>
  C3. The accumulator of the blocks of two partitions together is the merge of the
  accumulators of each, for every list of columns on which both exist: the two hold the
  same counters, so the same count, mean, standard deviation, max and min. On such
  accumulators the merge is commutative and associative; so \<open>stats\<close> returns the
  accumulator of all the blocks of all the partitions whatever order the runtime reduces
  in, and any two orders return the same.
\<close>

theorem merge_stats_union:
  assumes "ColumnStatCounters P1 cols = Inr a1" and "ColumnStatCounters P2 cols = Inr a2"
    and "ColumnStatCounters P3 cols = Inr a3"
    and "valid_plan (length parts) p" and "parts \<noteq> []"
    and "valid_plan (length (rdd_of self)) q" and "valid_plan (length (rdd_of self)) q'"
  shows "ColumnStatCounters (P1 @ P2) cols = Inr (merge_stats a1 a2)
    \<and> merge_stats a1 a2 = merge_stats a2 a1
    \<and> merge_stats (merge_stats a1 a2) a3 = merge_stats a1 (merge_stats a2 a3)
    \<and> stats p (PRDD (map Inr parts)) cols = ColumnStatCounters (concat parts) cols
    \<and> stats q self cols = stats q' self cols"
proof -
  have a: "a1 = tabulate cols (part_counter P1)" "a2 = tabulate cols (part_counter P2)"
    "a3 = tabulate cols (part_counter P3)"
    using assms(1-3) ColumnStatCounters_Inr by blast+
  have 1: "ColumnStatCounters (P1 @ P2) cols = Inr (merge_stats a1 a2)"
    using assms(1,2) by (simp add: ColumnStatCounters_append)
  have 2: "merge_stats a1 a2 = merge_stats a2 a1"
    by (simp add: a merge_stats_tabulate merge_counter_commute)
  have 3: "merge_stats (merge_stats a1 a2) a3 = merge_stats a1 (merge_stats a2 a3)"
    by (simp add: a merge_stats_tabulate merge_counter_assoc)
  show ?thesis
    using 1 2 3 stats_is_ColumnStatCounters[OF assms(4,5)] stats_order[OF assms(6,7)] by simp
qed

theorem merge_stats_union_witness:
  "ColumnStatCounters [DataFrame \<lparr>columns = [''a'', ''b''], rows = [(0, [Some (Str ''magic''), Some (Num 10)])]\<rparr>] [''b''] = Inr [(''b'', \<lparr>cnt = 1, total = 10, sumsq = 100, maxv = Some 10, minv = Some 10\<rparr>)]
   \<and> ColumnStatCounters [DataFrame \<lparr>columns = [''a'', ''b''], rows = [(0, [Some (Str ''ninja''), Some (Num 20)])]\<rparr>] [''b''] = Inr [(''b'', \<lparr>cnt = 1, total = 20, sumsq = 400, maxv = Some 20, minv = Some 20\<rparr>)]
   \<and> valid_plan (length [[DataFrame \<lparr>columns = [''a'', ''b''], rows = [(0, [Some (Str ''magic''), Some (Num 10)])]\<rparr>], [DataFrame \<lparr>columns = [''a'', ''b''], rows = [(0, [Some (Str ''ninja''), Some (Num 20)])]\<rparr>]]) (Node (Leaf 1) (Leaf 0))
   \<and> valid_plan (length [[DataFrame \<lparr>columns = [''a'', ''b''], rows = [(0, [Some (Str ''magic''), Some (Num 10)])]\<rparr>], [DataFrame \<lparr>columns = [''a'', ''b''], rows = [(0, [Some (Str ''ninja''), Some (Num 20)])]\<rparr>]]) (Node (Leaf 0) (Leaf 1))
   \<and> ColumnStatCounters ([DataFrame \<lparr>columns = [''a'', ''b''], rows = [(0, [Some (Str ''magic''), Some (Num 10)])]\<rparr>] @ [DataFrame \<lparr>columns = [''a'', ''b''], rows = [(0, [Some (Str ''ninja''), Some (Num 20)])]\<rparr>]) [''b'']
       = Inr (merge_stats [(''b'', \<lparr>cnt = 1, total = 10, sumsq = 100, maxv = Some 10, minv = Some 10\<rparr>)] [(''b'', \<lparr>cnt = 1, total = 20, sumsq = 400, maxv = Some 20, minv = Some 20\<rparr>)])
   \<and> merge_stats [(''b'', \<lparr>cnt = 1, total = 10, sumsq = 100, maxv = Some 10, minv = Some 10\<rparr>)] [(''b'', \<lparr>cnt = 1, total = 20, sumsq = 400, maxv = Some 20, minv = Some 20\<rparr>)] = [(''b'', \<lparr>cnt = 2, total = 30, sumsq = 500, maxv = Some 20, minv = Some 10\<rparr>)]
   \<and> merge_stats [(''b'', \<lparr>cnt = 1, total = 20, sumsq = 400, maxv = Some 20, minv = Some 20\<rparr>)] [(''b'', \<lparr>cnt = 1, total = 10, sumsq = 100, maxv = Some 10, minv = Some 10\<rparr>)] = [(''b'', \<lparr>cnt = 2, total = 30, sumsq = 500, maxv = Some 20, minv = Some 10\<rparr>)]
   \<and> stats (Node (Leaf 1) (Leaf 0)) (PRDD (map Inr [[DataFrame \<lparr>columns = [''a'', ''b''], rows = [(0, [Some (Str ''magic''), Some (Num 10)])]\<rparr>], [DataFrame \<lparr>columns = [''a'', ''b''], rows = [(0, [Some (Str ''ninja''), Some (Num 20)])]\<rparr>]])) [''b'']
       = ColumnStatCounters (concat [[DataFrame \<lparr>columns = [''a'', ''b''], rows = [(0, [Some (Str ''magic''), Some (Num 10)])]\<rparr>], [DataFrame \<lparr>columns = [''a'', ''b''], rows = [(0, [Some (Str ''ninja''), Some (Num 20)])]\<rparr>]]) [''b'']
   \<and> stats (Node (Leaf 1) (Leaf 0)) (PRDD (map Inr [[DataFrame \<lparr>columns = [''a'', ''b''], rows = [(0, [Some (Str ''magic''), Some (Num 10)])]\<rparr>], [DataFrame \<lparr>columns = [''a'', ''b''], rows = [(0, [Some (Str ''ninja''), Some (Num 20)])]\<rparr>]])) [''b'']
       = stats (Node (Leaf 0) (Leaf 1)) (PRDD (map Inr [[DataFrame \<lparr>columns = [''a'', ''b''], rows = [(0, [Some (Str ''magic''), Some (Num 10)])]\<rparr>], [DataFrame \<lparr>columns = [''a'', ''b''], rows = [(0, [Some (Str ''ninja''), Some (Num 20)])]\<rparr>]])) [''b'']"
proof -
  have c1: "ColumnStatCounters [DataFrame \<lparr>columns = [''a'', ''b''], rows = [(0, [Some (Str ''magic''), Some (Num 10)])]\<rparr>] [''b''] = Inr [(''b'', \<lparr>cnt = 1, total = 10, sumsq = 100, maxv = Some 10, minv = Some 10\<rparr>)]"
    by (simp add: ColumnStatCounters_def add_frame_def column_values_def frame_getitem_def
        counter_add_def empty_counter_def)
  have c2: "ColumnStatCounters [DataFrame \<lparr>columns = [''a'', ''b''], rows = [(0, [Some (Str ''ninja''), Some (Num 20)])]\<rparr>] [''b''] = Inr [(''b'', \<lparr>cnt = 1, total = 20, sumsq = 400, maxv = Some 20, minv = Some 20\<rparr>)]"
    by (simp add: ColumnStatCounters_def add_frame_def column_values_def frame_getitem_def
        counter_add_def empty_counter_def)
  have vp: "valid_plan (length [[DataFrame \<lparr>columns = [''a'', ''b''], rows = [(0, [Some (Str ''magic''), Some (Num 10)])]\<rparr>], [DataFrame \<lparr>columns = [''a'', ''b''], rows = [(0, [Some (Str ''ninja''), Some (Num 20)])]\<rparr>]]) (Node (Leaf 1) (Leaf 0))"
    by (simp add: valid_plan_def upt_conv_Cons)
  have vq: "valid_plan (length [[DataFrame \<lparr>columns = [''a'', ''b''], rows = [(0, [Some (Str ''magic''), Some (Num 10)])]\<rparr>], [DataFrame \<lparr>columns = [''a'', ''b''], rows = [(0, [Some (Str ''ninja''), Some (Num 20)])]\<rparr>]]) (Node (Leaf 0) (Leaf 1))"
    by (simp add: valid_plan_def upt_conv_Cons)
  have ne: "[[DataFrame \<lparr>columns = [''a'', ''b''], rows = [(0, [Some (Str ''magic''), Some (Num 10)])]\<rparr>], [DataFrame \<lparr>columns = [''a'', ''b''], rows = [(0, [Some (Str ''ninja''), Some (Num 20)])]\<rparr>]] \<noteq> []" by simp
  have vp': "valid_plan (length (rdd_of (PRDD (map Inr [[DataFrame \<lparr>columns = [''a'', ''b''], rows = [(0, [Some (Str ''magic''), Some (Num 10)])]\<rparr>], [DataFrame \<lparr>columns = [''a'', ''b''], rows = [(0, [Some (Str ''ninja''), Some (Num 20)])]\<rparr>]]))))
      (Node (Leaf 1) (Leaf 0))"
    by (simp add: valid_plan_def upt_conv_Cons PRDD_def)
  have vq': "valid_plan (length (rdd_of (PRDD (map Inr [[DataFrame \<lparr>columns = [''a'', ''b''], rows = [(0, [Some (Str ''magic''), Some (Num 10)])]\<rparr>], [DataFrame \<lparr>columns = [''a'', ''b''], rows = [(0, [Some (Str ''ninja''), Some (Num 20)])]\<rparr>]]))))
      (Node (Leaf 0) (Leaf 1))"
    by (simp add: valid_plan_def upt_conv_Cons PRDD_def)
  have m: "merge_stats [(''b'', \<lparr>cnt = 1, total = 10, sumsq = 100, maxv = Some 10, minv = Some 10\<rparr>)] [(''b'', \<lparr>cnt = 1, total = 20, sumsq = 400, maxv = Some 20, minv = Some 20\<rparr>)] = [(''b'', \<lparr>cnt = 2, total = 30, sumsq = 500, maxv = Some 20, minv = Some 10\<rparr>)]"
    "merge_stats [(''b'', \<lparr>cnt = 1, total = 20, sumsq = 400, maxv = Some 20, minv = Some 20\<rparr>)] [(''b'', \<lparr>cnt = 1, total = 10, sumsq = 100, maxv = Some 10, minv = Some 10\<rparr>)] = [(''b'', \<lparr>cnt = 2, total = 30, sumsq = 500, maxv = Some 20, minv = Some 10\<rparr>)]"
    by (simp_all add: merge_stats_def merge_counter_def)
  show ?thesis
    using c1 c2 vp vq m merge_stats_union [OF c1 c2 c1 vp ne vp' vq'] by blast
qed

text \<open>
  C4. A wrapped collection whose partitions yield no element at all (no partition, or
  only empty ones): \<open>collect\<close> raises, whatever order the runtime would choose.
\<close>

theorem collect_empty_fails:
  "rdd_evaluate (rdd_of self) = Inr [] \<Longrightarrow> collect p self = Inl EmptyReduce"
  by (simp add: collect_def rdd_reduce_def)

theorem collect_empty_fails_witness:
  "rdd_evaluate (rdd_of (fromRDD ([Inr [], Inr []] :: nat pobj rdd))) = Inr []
   \<and> collect (Leaf 0) (fromRDD ([Inr [], Inr []] :: nat pobj rdd)) = Inl EmptyReduce"
proof -
  have ev: "rdd_evaluate (rdd_of (fromRDD ([Inr [], Inr []] :: nat pobj rdd))) = Inr []"
    by (simp add: rdd_evaluate_def fromRDD_def PRDD_def)
  show ?thesis using ev collect_empty_fails [OF ev, of "Leaf 0"] by simp
qed

text \<open>
  C5. \<open>stats\<close> with an empty list of columns (which is also its default) raises, on
  every wrapped collection and under every reduction order; and when \<open>stats\<close> returns
  an accumulator, the list of columns is not empty, every partition has been computed and
  every block in it is a data frame that has every listed label.
\<close>

theorem stats_needs_columns:
  "(\<exists>e. stats p self [] = Inl e) \<and> (\<exists>e. stats_default p self = Inl e)
   \<and> (stats p self cols = Inr a \<longrightarrow>
        cols \<noteq> []
        \<and> (\<forall>part\<in>set (rdd_of self). \<exists>i. part = Inr i
              \<and> (\<forall>x\<in>set i. \<exists>d. x = DataFrame d \<and> set cols \<subseteq> set (columns d))))"
proof -
  let ?r = "\<lambda>cols. rdd_mapPartitions (\<lambda>i. ebind (ColumnStatCounters i cols) (\<lambda>a. Inr [a])) (rdd_of self)"
  have fails: "\<exists>e. stats p self [] = Inl e"
  proof (cases "rdd_evaluate (?r [])")
    case (Inl e)
    then show ?thesis by (simp add: stats_def rdd_reduce_def)
  next
    case (Inr vs)
    have "vs = []"
    proof (rule ccontr)
      assume "vs \<noteq> []"
      then obtain v where "v \<in> set vs" by (cases vs) auto
      from list_all2_right[OF stats_evaluate[OF Inr] this]
      show False by (auto simp: ColumnStatCounters_def)
    qed
    then show ?thesis using Inr by (simp add: stats_def rdd_reduce_def)
  qed
  have only: "cols \<noteq> []
        \<and> (\<forall>part\<in>set (rdd_of self). \<exists>i. part = Inr i
              \<and> (\<forall>x\<in>set i. \<exists>d. x = DataFrame d \<and> set cols \<subseteq> set (columns d)))"
    if ok: "stats p self cols = Inr a"
  proof -
    from ok obtain vs where ev: "rdd_evaluate (?r cols) = Inr vs" and ne: "vs \<noteq> []"
      by (auto simp: stats_def rdd_reduce_def ebind_Inr_iff split: if_splits)
    note all2 = stats_evaluate[OF ev]
    obtain v where "v \<in> set vs" using ne by (cases vs) auto
    from list_all2_right[OF all2 this] have "cols \<noteq> []"
      using ColumnStatCounters_Inr by blast
    moreover have "\<exists>i. part = Inr i
              \<and> (\<forall>x\<in>set i. \<exists>d. x = DataFrame d \<and> set cols \<subseteq> set (columns d))"
      if "part \<in> set (rdd_of self)" for part
      using list_all2_left[OF all2 that] ColumnStatCounters_labels by blast
    ultimately show ?thesis by blast
  qed
  show ?thesis using fails only by (simp add: stats_default_def)
qed

theorem stats_needs_columns_witness:
  "stats (Leaf 0) (PRDD [Inr [DataFrame \<lparr>columns = [''a'', ''b''], rows = [(0, [Some (Str ''magic''), Some (Num 10)])]\<rparr>, DataFrame \<lparr>columns = [''a'', ''b''], rows = [(0, [Some (Str ''ninja''), Some (Num 20)])]\<rparr>]]) [''b''] = Inr [(''b'', \<lparr>cnt = 2, total = 30, sumsq = 500, maxv = Some 20, minv = Some 10\<rparr>)]
   \<and> (\<exists>e. stats (Leaf 0) (PRDD [Inr [DataFrame \<lparr>columns = [''a'', ''b''], rows = [(0, [Some (Str ''magic''), Some (Num 10)])]\<rparr>, DataFrame \<lparr>columns = [''a'', ''b''], rows = [(0, [Some (Str ''ninja''), Some (Num 20)])]\<rparr>]]) [] = Inl e)
   \<and> [''b''] \<noteq> []
   \<and> set [''b''] \<subseteq> set (columns \<lparr>columns = [''a'', ''b''], rows = [(0, [Some (Str ''magic''), Some (Num 10)])]\<rparr>) \<and> set [''b''] \<subseteq> set (columns \<lparr>columns = [''a'', ''b''], rows = [(0, [Some (Str ''ninja''), Some (Num 20)])]\<rparr>)"
proof -
  have ok: "stats (Leaf 0) (PRDD [Inr [DataFrame \<lparr>columns = [''a'', ''b''], rows = [(0, [Some (Str ''magic''), Some (Num 10)])]\<rparr>, DataFrame \<lparr>columns = [''a'', ''b''], rows = [(0, [Some (Str ''ninja''), Some (Num 20)])]\<rparr>]]) [''b''] = Inr [(''b'', \<lparr>cnt = 2, total = 30, sumsq = 500, maxv = Some 20, minv = Some 10\<rparr>)]"
    by (simp add: stats_def PRDD_def rdd_reduce_def rdd_evaluate_def rdd_mapPartitions_def
        ColumnStatCounters_def add_frame_def column_values_def frame_getitem_def
        counter_add_def empty_counter_def)
  show ?thesis
    using ok stats_needs_columns [of "Leaf 0" "PRDD [Inr [DataFrame \<lparr>columns = [''a'', ''b''], rows = [(0, [Some (Str ''magic''), Some (Num 10)])]\<rparr>, DataFrame \<lparr>columns = [''a'', ''b''], rows = [(0, [Some (Str ''ninja''), Some (Num 20)])]\<rparr>]]" "[''b'']" "[(''b'', \<lparr>cnt = 2, total = 30, sumsq = 500, maxv = Some 20, minv = Some 10\<rparr>)]"]
    by (simp add: PRDD_def)
qed

text \<open>
  C6. Run on a store in which the receiver exists, \<open>applymap\<close>, \<open>__getitem__\<close>,
  \<open>collect\<close> and \<open>stats\<close> leave the receiver, and every object that existed, as it was.
  The two actions leave the store as it was. A transformation that returns, returns a
  new object, which is not the receiver and did not exist before, and whose handle is the
  new collection; it is the one object that \<open>__init__\<close> assigns to.
\<close>

theorem receiver_unchanged:
  assumes "self < length H" and "stats_self < length stats_H"
  shows "fst (applymap_obj self f kw H) ! self = H ! self
       \<and> fst (getitem_obj self key H) ! self = H ! self
       \<and> fst (collect_obj p self H) ! self = H ! self
       \<and> fst (stats_obj p stats_self cols stats_H) ! stats_self = stats_H ! stats_self
       \<and> take (length H) (fst (applymap_obj self f kw H)) = H
       \<and> take (length H) (fst (getitem_obj self key H)) = H
       \<and> fst (collect_obj p self H) = H
       \<and> fst (stats_obj p stats_self cols stats_H) = stats_H
       \<and> (\<forall>w. snd (applymap_obj self f kw H) = Inr w \<longrightarrow> w = length H \<and> w \<noteq> self)
       \<and> (\<forall>w. snd (getitem_obj self key H) = Inr w \<longrightarrow> w = length H \<and> w \<noteq> self)
       \<and> (\<forall>r w. H ! self = Some r \<longrightarrow> applymap (PRDD r) f kw = Inr w \<longrightarrow>
              applymap_obj self f kw H = (H @ [Some (rdd_of w)], Inr (length H)))
       \<and> (\<forall>r w. H ! self = Some r \<longrightarrow> getitem (PRDD r) key = Inr w \<longrightarrow>
              getitem_obj self key H = (H @ [Some (rdd_of w)], Inr (length H)))
       \<and> (\<forall>r. H ! self = Some r \<longrightarrow> collect_obj p self H = (H, collect p (PRDD r)))"
proof -
  note a = transform_obj_store[of self "\<lambda>r. rdd_map (\<lambda>data. pd_applymap f data) kw r" H,
      folded applymap_obj_def]
  note g = transform_obj_store[of self "\<lambda>r. rdd_map (\<lambda>x. pd_getitem key x) [] r" H,
      folded getitem_obj_def]
  have c: "fst (collect_obj p self H) = H"
    unfolding collect_obj_def by (rule action_obj_store)
  have s: "fst (stats_obj p stats_self cols stats_H) = stats_H"
    unfolding stats_obj_def by (rule action_obj_store)
  have c1: "fst (collect_obj p self H) ! self = H ! self" by (simp only: c)
  have s1: "fst (stats_obj p stats_self cols stats_H) ! stats_self = stats_H ! stats_self"
    by (simp only: s)
  have new: "fst x ! self = H ! self \<and> take (length H) (fst x) = H
             \<and> (\<forall>w. snd x = Inr w \<longrightarrow> w = length H \<and> w \<noteq> self)"
    if "(\<exists>e. x = (H, Inl e)) \<or> (\<exists>r'. x = (H @ [Some r'], Inr (length H)))"
    for x :: "'a pobj rdd heap \<times> (error + nat)"
    using that assms(1) by (auto simp: nth_append)
  note a' = new[OF a] and g' = new[OF g]
  have a4: "\<forall>r w. H ! self = Some r \<longrightarrow> applymap (PRDD r) f kw = Inr w \<longrightarrow>
              applymap_obj self f kw H = (H @ [Some (rdd_of w)], Inr (length H))"
  proof (intro allI impI)
    fix r w assume h: "H ! self = Some r" "applymap (PRDD r) f kw = Inr w"
    from h(2) obtain r' where r': "rdd_map (\<lambda>data. pd_applymap f data) kw r = Inr r'" "rdd_of w = r'"
      by (auto simp: applymap_def PRDD_def fromRDD_def ebind_Inr_iff)
    show "applymap_obj self f kw H = (H @ [Some (rdd_of w)], Inr (length H))"
      using get_rdd_run[OF assms(1) h(1)] r'
      by (simp add: applymap_obj_def sbind_def slift_def fromRDD_obj_def PRDD_obj_run)
  qed
  have g4: "\<forall>r w. H ! self = Some r \<longrightarrow> getitem (PRDD r) key = Inr w \<longrightarrow>
              getitem_obj self key H = (H @ [Some (rdd_of w)], Inr (length H))"
  proof (intro allI impI)
    fix r w assume h: "H ! self = Some r" "getitem (PRDD r) key = Inr w"
    from h(2) obtain r' where r': "rdd_map (\<lambda>x. pd_getitem key x) [] r = Inr r'" "rdd_of w = r'"
      by (auto simp: getitem_def PRDD_def fromRDD_def ebind_Inr_iff)
    show "getitem_obj self key H = (H @ [Some (rdd_of w)], Inr (length H))"
      using get_rdd_run[OF assms(1) h(1)] r'
      by (simp add: getitem_obj_def sbind_def slift_def fromRDD_obj_def PRDD_obj_run)
  qed
  have c4: "\<forall>r. H ! self = Some r \<longrightarrow> collect_obj p self H = (H, collect p (PRDD r))"
  proof (intro allI impI)
    fix r assume h: "H ! self = Some r"
    show "collect_obj p self H = (H, collect p (PRDD r))"
      using get_rdd_run[OF assms(1) h]
      by (simp add: collect_obj_def collect_def sbind_def slift_def PRDD_def)
  qed
  from a' have a1: "fst (applymap_obj self f kw H) ! self = H ! self"
    and a2: "take (length H) (fst (applymap_obj self f kw H)) = H"
    and a3: "\<forall>w. snd (applymap_obj self f kw H) = Inr w \<longrightarrow> w = length H \<and> w \<noteq> self"
    by blast+
  from g' have g1: "fst (getitem_obj self key H) ! self = H ! self"
    and g2: "take (length H) (fst (getitem_obj self key H)) = H"
    and g3: "\<forall>w. snd (getitem_obj self key H) = Inr w \<longrightarrow> w = length H \<and> w \<noteq> self"
    by blast+
  show ?thesis
    by (intro conjI) (fact a1 g1 c1 s1 a2 g2 c s a3 g3 a4 g4 c4)+
qed

theorem receiver_unchanged_witness:
  "(0::nat) < length [Some ([Inr [DataFrame \<lparr>columns = [''k''], rows = [(0, [Some (1::nat)])]\<rparr>]])]
   \<and> applymap_obj 0 (map_option Suc) []
        [Some [Inr [DataFrame \<lparr>columns = [''k''], rows = [(0, [Some (1::nat)])]\<rparr>]]]
      = ([Some [Inr [DataFrame \<lparr>columns = [''k''], rows = [(0, [Some 1])]\<rparr>]],
          Some [Inr [DataFrame \<lparr>columns = [''k''], rows = [(0, [Some 2])]\<rparr>]]], Inr 1)"
proof -
  let ?r = "[Inr [DataFrame \<lparr>columns = [''k''], rows = [(0, [Some (1::nat)])]\<rparr>]]"
  let ?r' = "[Inr [DataFrame \<lparr>columns = [''k''], rows = [(0, [Some (2::nat)])]\<rparr>]]"
  have l: "(0::nat) < length [Some ?r]" by simp
  have l': "(0::nat) < length [Some ([] :: cell pobj rdd)]" by simp
  have h: "[Some ?r] ! 0 = Some ?r" by simp
  have am: "applymap (PRDD ?r) (map_option Suc) [] = Inr (PRDD ?r')"
    by (simp add: applymap_def rdd_map_def kwargs_ok_def PRDD_def fromRDD_def frame_applymap_def)
  note t = receiver_unchanged [where f = "map_option Suc" and kw = "[]" and key = "''k''"
      and p = "Leaf 0" and cols = "[]", OF l l']
  note t11 = t[THEN conjunct2, THEN conjunct2, THEN conjunct2, THEN conjunct2, THEN conjunct2,
      THEN conjunct2, THEN conjunct2, THEN conjunct2, THEN conjunct2, THEN conjunct2,
      THEN conjunct1, rule_format, OF h am]
  show ?thesis using l t11 by (simp add: PRDD_def)
qed

text \<open>
  C7. The rows \<open>("magic", 10)\<close>, \<open>("ninja", 20)\<close>, \<open>("coffee", 30)\<close> under the columns
  \<open>a\<close>, \<open>b\<close>, as one block or as three one-row blocks in three partitions: \<open>stats\<close> on
  column \<open>b\<close> returns one counter, with count 3, mean 20, max 30, min 10 and a standard
  deviation within one billionth of 8.164965809.
\<close>

theorem stats_scenario:
  "\<exists>c s. stats (Leaf 0) (fromRDD [Inr [DataFrame \<lparr>columns = [''a'', ''b''], rows = [(0, [Some (Str ''magic''), Some (Num 10)]), (1, [Some (Str ''ninja''), Some (Num 20)]), (2, [Some (Str ''coffee''), Some (Num 30)])]\<rparr>]]) [''b''] = Inr [(''b'', c)]
     \<and> stats (Node (Node (Leaf 2) (Leaf 0)) (Leaf 1))
          (fromRDD [Inr [DataFrame \<lparr>columns = [''a'', ''b''], rows = [(0, [Some (Str ''magic''), Some (Num 10)])]\<rparr>], Inr [DataFrame \<lparr>columns = [''a'', ''b''], rows = [(0, [Some (Str ''ninja''), Some (Num 20)])]\<rparr>], Inr [DataFrame \<lparr>columns = [''a'', ''b''], rows = [(0, [Some (Str ''coffee''), Some (Num 30)])]\<rparr>]]) [''b'']
        = Inr [(''b'', c)]
     \<and> cnt c = 3 \<and> counter_mean c = Some 20
     \<and> counter_stdev c = Some s \<and> \<bar>s - 8164965809 / 1000000000\<bar> < 1 / 1000000000
     \<and> maxv c = Some 30 \<and> minv c = Some 10"
proof -
  let ?c = "\<lparr>cnt = 3, total = 60, sumsq = 1400, maxv = Some 30, minv = Some 10\<rparr>"
  have 1: "stats (Leaf 0) (fromRDD [Inr [DataFrame \<lparr>columns = [''a'', ''b''], rows = [(0, [Some (Str ''magic''), Some (Num 10)]), (1, [Some (Str ''ninja''), Some (Num 20)]), (2, [Some (Str ''coffee''), Some (Num 30)])]\<rparr>]]) [''b''] = Inr [(''b'', ?c)]"
    by (simp add: stats_def fromRDD_def PRDD_def rdd_reduce_def rdd_evaluate_def
        rdd_mapPartitions_def ColumnStatCounters_def add_frame_def column_values_def
        frame_getitem_def counter_add_def empty_counter_def)
  have 2: "stats (Node (Node (Leaf 2) (Leaf 0)) (Leaf 1))
          (fromRDD [Inr [DataFrame \<lparr>columns = [''a'', ''b''], rows = [(0, [Some (Str ''magic''), Some (Num 10)])]\<rparr>], Inr [DataFrame \<lparr>columns = [''a'', ''b''], rows = [(0, [Some (Str ''ninja''), Some (Num 20)])]\<rparr>], Inr [DataFrame \<lparr>columns = [''a'', ''b''], rows = [(0, [Some (Str ''coffee''), Some (Num 30)])]\<rparr>]]) [''b'']
        = Inr [(''b'', ?c)]"
    by (simp add: stats_def fromRDD_def PRDD_def rdd_reduce_def rdd_evaluate_def
        rdd_mapPartitions_def ColumnStatCounters_def add_frame_def column_values_def
        frame_getitem_def counter_add_def empty_counter_def reduceFunc_def merge_stats_def
        merge_counter_def)
  have 3: "counter_mean ?c = Some 20" "cnt ?c = 3" "maxv ?c = Some 30" "minv ?c = Some 10"
    by (simp_all add: counter_mean_def)
  have 4: "counter_stdev ?c = Some (sqrt (200 / 3))"
    by (simp add: counter_stdev_def)
  have lo: "8164965808 / 1000000000 < sqrt (200 / 3)"
    by (rule real_less_rsqrt) (simp add: power2_eq_square)
  have hi: "sqrt (200 / 3) < 8164965810 / 1000000000"
    by (rule real_less_lsqrt) (simp_all add: power2_eq_square)
  have 5: "\<bar>sqrt (200 / 3) - 8164965809 / 1000000000\<bar> < 1 / 1000000000"
    using lo hi by linarith
  show ?thesis using 1 2 3 4 5 by blast
qed

text \<open>
  C8. \<open>fromRDD\<close> returns a wrapper for every handle, of whatever type, and stores it as it
  is; on every store it makes one new object that holds the handle, and never raises.
  What is wrong with the collection shows when an action runs: a partition that raises, a
  frame next to a series that has no name, or a block without the selected column, makes
  \<open>collect\<close> raise, after \<open>fromRDD\<close> and \<open>__getitem__\<close> have returned.
\<close>

theorem fromRDD_unchecked:
  "rdd_of (fromRDD h) = h
   \<and> fromRDD_obj h H = (H @ [Some h], Inr (length H))
   \<and> collect p (fromRDD (Inl e # r)) = Inl e
   \<and> collect (Node (Leaf 0) (Leaf 1))
        (fromRDD [Inr [DataFrame d, Series \<lparr>sname = None, items = its\<rparr>]]) = Inl TypeError
   \<and> (\<exists>w. getitem (fromRDD [Inr [DataFrame \<lparr>columns = [], rows = rs\<rparr>]]) k = Inr w
          \<and> collect p w = Inl KeyError)"
  by (simp add: fromRDD_def PRDD_def fromRDD_obj_def PRDD_obj_run collect_def rdd_reduce_def
      rdd_evaluate_def appendFrames_def getitem_def rdd_map_def kwargs_ok_def frame_getitem_def)

text \<open>
  C9. On a collection of data frames, \<open>applymap\<close> with the identity function followed by
  \<open>collect\<close> returns what \<open>collect\<close> returns on the original wrapper, under every
  reduction order, also when it raises.
\<close>

theorem applymap_identity:
  assumes "frames_only (rdd_of self)" and "kwargs_ok kw"
  shows "ebind (applymap self (\<lambda>x. x) kw) (collect p) = collect p self"
proof -
  have "mapM (pd_applymap (\<lambda>x. x)) vs = Inr vs" if "list_all is_frame vs" for vs :: "'a pobj list"
    using that
  proof (induction vs)
    case Nil
    then show ?case by simp
  next
    case (Cons v vs)
    then show ?case by (cases v) (simp_all add: frame_applymap_def case_prod_unfold)
  qed
  then have "ebind part (mapM (pd_applymap (\<lambda>x. x))) = part"
    if "part \<in> set (rdd_of self)" for part
    using that assms(1) by (cases part) (auto simp: frames_only_def list_all_iff)
  then have "map (\<lambda>part. ebind part (mapM (pd_applymap (\<lambda>x. x)))) (rdd_of self) = rdd_of self"
    by (simp add: map_idI)
  then show ?thesis
    using assms(2) by (simp add: applymap_def rdd_map_def collect_def fromRDD_def PRDD_def)
qed

theorem applymap_identity_witness:
  "frames_only (rdd_of (fromRDD [Inr [DataFrame \<lparr>columns = [''k''], rows = [(0, [Some (1::nat)])]\<rparr>], Inl KeyError, Inr [DataFrame \<lparr>columns = [''k''], rows = [(0, [Some (2::nat)])]\<rparr>]]))
   \<and> kwargs_ok []
   \<and> ebind (applymap (fromRDD [Inr [DataFrame \<lparr>columns = [''k''], rows = [(0, [Some (1::nat)])]\<rparr>], Inr [DataFrame \<lparr>columns = [''k''], rows = [(0, [Some (2::nat)])]\<rparr>]]) (\<lambda>x. x) [])
        (collect (Node (Leaf 0) (Leaf 1)))
     = Inr (DataFrame \<lparr>columns = [''k''], rows = [(0, [Some (1::nat)]), (0, [Some 2])]\<rparr>)"
proof -
  have fo: "frames_only (rdd_of (fromRDD [Inr [DataFrame \<lparr>columns = [''k''], rows = [(0, [Some (1::nat)])]\<rparr>], Inr [DataFrame \<lparr>columns = [''k''], rows = [(0, [Some (2::nat)])]\<rparr>]]))"
    by (simp add: frames_only_def fromRDD_def PRDD_def)
  have fo': "frames_only (rdd_of (fromRDD [Inr [DataFrame \<lparr>columns = [''k''], rows = [(0, [Some (1::nat)])]\<rparr>], Inl KeyError, Inr [DataFrame \<lparr>columns = [''k''], rows = [(0, [Some (2::nat)])]\<rparr>]]))"
    by (simp add: frames_only_def fromRDD_def PRDD_def)
  have kw: "kwargs_ok []"
    by (simp add: kwargs_ok_def)
  have "collect (Node (Leaf 0) (Leaf 1)) (fromRDD [Inr [DataFrame \<lparr>columns = [''k''], rows = [(0, [Some (1::nat)])]\<rparr>], Inr [DataFrame \<lparr>columns = [''k''], rows = [(0, [Some (2::nat)])]\<rparr>]])
     = Inr (DataFrame \<lparr>columns = [''k''], rows = [(0, [Some (1::nat)]), (0, [Some 2])]\<rparr>)"
    by (simp add: collect_def rdd_reduce_def rdd_evaluate_def fromRDD_def PRDD_def
        appendFrames_def frame_append_def)
  then show ?thesis
    using fo' kw applymap_identity [OF fo kw, of "Node (Leaf 0) (Leaf 1)"] by simp
qed

text \<open>
  C10. The class method \<open>fromRDD\<close> and the constructor \<open>PRDD\<close> build the same wrapper:
  both store the handle unchanged, so the two instances are equal and every method
  returns the same on either.
\<close>

theorem fromRDD_equals_PRDD:
  "fromRDD rdd = PRDD rdd
   \<and> rdd_of (fromRDD rdd) = rdd \<and> rdd_of (PRDD rdd) = rdd
   \<and> applymap (fromRDD r) f kw = applymap (PRDD r) f kw
   \<and> getitem (fromRDD r) key = getitem (PRDD r) key
   \<and> collect p (fromRDD r) = collect p (PRDD r)"
  by (simp add: fromRDD_def PRDD_def)

end
